theory Spec2Isabelle
  imports Complex_Main
begin

section \<open>OVERCLOCK: the simulation core of \<open>src/game/main.py\<close>\<close>

text \<open>
  The embedding follows \<open>main.py\<close> function by function. Conventions:
  \<^item> Python floats are idealised as \<open>real\<close>; Python ints (hit points, radii, damage,
    tier, score, meter, sector) are \<open>int\<close>.
  \<^item> \<open>pygame.Vector2\<close> is a pair of reals.
  \<^item> The module \<open>random\<close> is an explicit stream of draws \<open>nat \<Rightarrow> real\<close>, each
    standing for one call of \<open>random.random()\<close>; every call of the source consumes one
    draw, in the source's order. No theorem assumes anything about the drawn values
    unless it says so.
  \<^item> Objects in a Python list are distinct objects; a list of objects is a HOL list
    and in-place mutation of the i-th object is \<open>xs[i := v]\<close>.
  \<^item> Drawing, sound cues and particles do not feed back into the simulation and are
    left out; \<open>spark\<close> still consumes its random draws.
\<close>

subsection \<open>Constants\<close>

definition W :: real where "W = 960"
definition H :: real where "H = 540"
definition FPS :: real where "FPS = 60"
definition GRID :: real where "GRID = 48"
definition JUNC_TOL :: real where "JUNC_TOL = 6"

definition HERO_R :: int where "HERO_R = 8"
definition HERO_SPEED :: real where "HERO_SPEED = 260"
definition HERO_IFRAMES :: real where "HERO_IFRAMES = 1"
definition HERO_SHOT_CD :: real where "HERO_SHOT_CD = 22 / 100"
definition HERO_HP :: int where "HERO_HP = 5"

definition SURGE_R :: int where "SURGE_R = 5"
definition SURGE_LEN :: real where "SURGE_LEN = 19 / 10"
definition SURGE_SPEED_PLAYER :: real where "SURGE_SPEED_PLAYER = 560"
definition SURGE_SPEED_ENEMY :: real where "SURGE_SPEED_ENEMY = 460"
definition SURGE_SPEED_NATURAL :: real where "SURGE_SPEED_NATURAL = 520"

definition OC_FILL_PER_CANCEL :: int where "OC_FILL_PER_CANCEL = 8"
definition OC_FILL_PER_KILL :: int where "OC_FILL_PER_KILL = 12"
definition OC_MAX :: int where "OC_MAX = 200"
definition OC_SURGE_R :: int where "OC_SURGE_R = 10"
definition OC_SURGE_SPEED :: real where "OC_SURGE_SPEED = 700"
definition OC_SURGE_TTL :: real where "OC_SURGE_TTL = 16 / 10"
definition OC_SURGE_DMG :: int where "OC_SURGE_DMG = 2"
definition OC_BLAST_SHAKE_TIME :: real where "OC_BLAST_SHAKE_TIME = 9 / 10"
definition OC_BLAST_SHAKE_STRENGTH :: real where "OC_BLAST_SHAKE_STRENGTH = 6"

definition VIRUS_BASE_R :: int where "VIRUS_BASE_R = 22"
definition BUG_R :: int where "BUG_R = 14"
definition WORM_R :: int where "WORM_R = 18"
definition VIRUS_SPEED :: real where "VIRUS_SPEED = 90"
definition BUG_SPEED :: real where "BUG_SPEED = 150"
definition WORM_SPEED :: real where "WORM_SPEED = 110"
definition VIRUS_SHOOT_CD :: "real \<times> real" where "VIRUS_SHOOT_CD = (13 / 10, 19 / 10)"
definition BUG_SHOOT_CD :: "real \<times> real" where "BUG_SHOOT_CD = (85 / 100, 115 / 100)"
definition WORM_SHOOT_CD :: "real \<times> real" where "WORM_SHOOT_CD = (18 / 10, 24 / 10)"

definition SECTOR_START_ENEMIES :: "int \<times> int \<times> int" where
  "SECTOR_START_ENEMIES = (2, 2, 1)"
definition NAT_SURGE_EVERY :: "real \<times> real" where "NAT_SURGE_EVERY = (24 / 10, 38 / 10)"
definition MAX_ENEMIES_ON_FIELD :: nat where "MAX_ENEMIES_ON_FIELD = 18"

definition SHAKE_DECAY :: real where "SHAKE_DECAY = 40"
definition SHAKE_SHOOT :: real where "SHAKE_SHOOT = 1"

subsection \<open>Vectors and the random source\<close>

type_synonym vec = "real \<times> real"

definition vadd :: "vec \<Rightarrow> vec \<Rightarrow> vec" where
  "vadd a b = (fst a + fst b, snd a + snd b)"

definition vsub :: "vec \<Rightarrow> vec \<Rightarrow> vec" where
  "vsub a b = (fst a - fst b, snd a - snd b)"

definition vscale :: "vec \<Rightarrow> real \<Rightarrow> vec" where
  "vscale a k = (fst a * k, snd a * k)"

definition length_squared :: "vec \<Rightarrow> real" where
  "length_squared v = fst v * fst v + snd v * snd v"

definition distance_to :: "vec \<Rightarrow> vec \<Rightarrow> real" where
  "distance_to a b = sqrt (length_squared (vsub a b))"

definition normalize :: "vec \<Rightarrow> vec" where
  "normalize v = vscale v (1 / sqrt (length_squared v))"

type_synonym rng = "nat \<Rightarrow> real"

text \<open>One call of \<open>random.random()\<close>: the head of the stream, and the rest.\<close>

definition py_random :: "rng \<Rightarrow> real \<times> rng" where
  "py_random rg = (rg 0, \<lambda>n. rg (Suc n))"

definition uniform :: "real \<Rightarrow> real \<Rightarrow> rng \<Rightarrow> real \<times> rng" where
  "uniform a b rg = (a + (b - a) * fst (py_random rg), snd (py_random rg))"

definition rand_between :: "real \<times> real \<Rightarrow> rng \<Rightarrow> real \<times> rng" where
  "rand_between a_b rg = uniform (fst a_b) (snd a_b) rg"

text \<open>
  \<open>random.choice\<close> and \<open>random.randint\<close> pick by the position of the draw in the unit
  interval; a draw outside of it is clamped to the nearest legal index.
\<close>

definition choice :: "'a list \<Rightarrow> rng \<Rightarrow> 'a \<times> rng" where
  "choice xs rg =
     (xs ! min (nat \<lfloor>fst (py_random rg) * real (length xs)\<rfloor>) (length xs - 1), snd (py_random rg))"

definition randint :: "int \<Rightarrow> int \<Rightarrow> rng \<Rightarrow> int \<times> rng" where
  "randint a b rg =
     (a + max 0 (min \<lfloor>fst (py_random rg) * real_of_int (b - a + 1)\<rfloor> (b - a)), snd (py_random rg))"

fun skip :: "nat \<Rightarrow> rng \<Rightarrow> rng" where
  "skip 0 rg = rg"
| "skip (Suc n) rg = skip n (snd (py_random rg))"

subsection \<open>Helpers\<close>

definition clamp :: "'a::linorder \<Rightarrow> 'a \<Rightarrow> 'a \<Rightarrow> 'a" where
  "clamp v a b = (if v < a then a else if v > b then b else v)"

text \<open>Python 3 \<open>round\<close>: to the nearest integer, a tie to the even one.\<close>

definition py_round :: "real \<Rightarrow> int" where
  "py_round x =
     (let f = \<lfloor>x\<rfloor>; d = x - of_int f
      in if d < 1 / 2 then f else if d > 1 / 2 then f + 1 else if even f then f else f + 1)"

definition near_grid :: "real \<Rightarrow> bool" where
  "near_grid v \<longleftrightarrow> \<bar>v - of_int (py_round (v / GRID)) * GRID\<bar> \<le> JUNC_TOL"

definition at_intersection :: "vec \<Rightarrow> bool" where
  "at_intersection p \<longleftrightarrow> near_grid (fst p) \<and> near_grid (snd p)"

definition snap_axis :: "vec \<Rightarrow> vec \<Rightarrow> vec" where
  "snap_axis p dirv =
     (let xg = of_int (py_round (fst p / GRID)) * GRID;
          yg = of_int (py_round (snd p / GRID)) * GRID;
          p1 = (if \<bar>fst dirv\<bar> > 0 then (fst p, yg) else p)
      in if \<bar>snd dirv\<bar> > 0 then (xg, snd p1) else p1)"

definition cardinal_from :: "vec \<Rightarrow> vec" where
  "cardinal_from v =
     (if length_squared v = 0 then (1, 0)
      else if \<bar>fst v\<bar> \<ge> \<bar>snd v\<bar> then (if fst v \<ge> 0 then 1 else -1, 0)
      else (0, if snd v \<ge> 0 then 1 else -1))"

definition cardinals :: "vec list" where
  "cardinals = [(1, 0), (-1, 0), (0, 1), (0, -1)]"

text \<open>\<open>spark(pos, color, n)\<close>: n particles, four random calls each; the particles are cosmetic.\<close>

definition spark :: "nat \<Rightarrow> rng \<Rightarrow> rng" where
  "spark n rg = skip (4 * n) rg"

subsection \<open>Surges\<close>

datatype owner = OwnPlayer | OwnEnemy | OwnNatural | OwnOc

record surge =
  s_pos :: vec
  s_dir :: vec
  speed :: real
  ttl :: real
  owner :: owner
  s_r :: int
  dmg :: int
  pierce :: bool

text \<open>\<open>Surge.__init__\<close>; the defaults \<open>r=SURGE_R, ttl=SURGE_LEN, dmg=1, pierce=False\<close> are
  written out at the call sites (\<open>Surge_default\<close>).\<close>

definition Surge :: "vec \<Rightarrow> vec \<Rightarrow> real \<Rightarrow> owner \<Rightarrow> int \<Rightarrow> real \<Rightarrow> int \<Rightarrow> bool \<Rightarrow> surge" where
  "Surge p dirv sp ow rad t d pc =
     \<lparr>s_pos = p, s_dir = cardinal_from dirv, speed = sp, ttl = t, owner = ow,
      s_r = rad, dmg = d, pierce = pc\<rparr>"

definition Surge_default :: "vec \<Rightarrow> vec \<Rightarrow> real \<Rightarrow> owner \<Rightarrow> surge" where
  "Surge_default p dirv sp ow = Surge p dirv sp ow SURGE_R SURGE_LEN 1 False"

text \<open>\<open>Surge.update\<close>: the moved surge and whether it is still alive.\<close>

definition Surge_update :: "real \<Rightarrow> surge \<Rightarrow> bool \<times> surge" where
  "Surge_update dt s =
     (let p = vadd (s_pos s) (vscale (vscale (s_dir s) (speed s)) dt);
          t = ttl s - dt;
          p' = snap_axis p (s_dir s)
      in (t > 0 \<and> (-20 < fst p' \<and> fst p' < W + 20) \<and> (-20 < snd p' \<and> snd p' < H + 20),
          s\<lparr>s_pos := p', ttl := t\<rparr>))"

subsection \<open>Hero\<close>

record hero =
  h_pos :: vec
  h_r :: int
  h_hp :: int
  ifr :: real
  cd :: real
  face :: vec
  oc_meter :: int

definition CENTER :: vec where "CENTER = (W / 2, H / 2)"

definition Hero :: "vec \<Rightarrow> hero" where
  "Hero p = \<lparr>h_pos = p, h_r = HERO_R, h_hp = HERO_HP, ifr = 0, cd = 0, face = (1, 0),
            oc_meter = 0\<rparr>"

definition alive :: "hero \<Rightarrow> bool" where
  "alive h \<longleftrightarrow> h_hp h > 0"

text \<open>\<open>Hero.hurt\<close>: the returned flag and the hero afterwards.\<close>

definition hurt :: "hero \<Rightarrow> bool \<times> hero" where
  "hurt h = (if ifr h > 0 then (False, h)
             else (True, h\<lparr>h_hp := h_hp h - 1, ifr := HERO_IFRAMES\<rparr>))"

definition add_oc :: "int \<Rightarrow> hero \<Rightarrow> hero" where
  "add_oc v h = h\<lparr>oc_meter := clamp (oc_meter h + v) 0 OC_MAX\<rparr>"

definition ready_overclock :: "hero \<Rightarrow> bool" where
  "ready_overclock h \<longleftrightarrow> oc_meter h \<ge> OC_MAX"

definition reset_overclock :: "hero \<Rightarrow> hero" where
  "reset_overclock h = h\<lparr>oc_meter := 0\<rparr>"

datatype key = K_a | K_d | K_w | K_s | K_LEFT | K_RIGHT | K_UP | K_DOWN
  | K_LSHIFT | K_RSHIFT | K_SPACE | K_RETURN | K_ESCAPE | K_p | K_v | K_m | K_r | K_other

definition Hero_update :: "real \<Rightarrow> (key \<Rightarrow> bool) \<Rightarrow> hero \<Rightarrow> hero" where
  "Hero_update dt keys h =
     (let mx = (if keys K_a \<or> keys K_LEFT then -1 else 0) + (if keys K_d \<or> keys K_RIGHT then 1 else 0);
          my = (if keys K_w \<or> keys K_UP then -1 else 0) + (if keys K_s \<or> keys K_DOWN then 1 else 0);
          move = (mx, my);
          h1 = (if length_squared move > 0
                then h\<lparr>h_pos := vadd (h_pos h) (vscale (vscale (normalize move) HERO_SPEED) dt),
                       face := cardinal_from (normalize move)\<rparr>
                else h);
          h2 = h1\<lparr>h_pos := (clamp (fst (h_pos h1)) 12 (W - 12), clamp (snd (h_pos h1)) 12 (H - 12))\<rparr>;
          h3 = (if ifr h2 > 0 then h2\<lparr>ifr := max 0 (ifr h2 - dt)\<rparr> else h2)
      in if cd h3 > 0 then h3\<lparr>cd := max 0 (cd h3 - dt)\<rparr> else h3)"

definition can_shoot :: "hero \<Rightarrow> bool" where
  "can_shoot h \<longleftrightarrow> cd h \<le> 0"

text \<open>\<open>Hero.shoot\<close>: the hero with its cooldown set, and the new surge.\<close>

definition shoot :: "vec \<Rightarrow> hero \<Rightarrow> hero \<times> surge" where
  "shoot aim_dir h =
     (let dirv = cardinal_from (if length_squared aim_dir > 0 then aim_dir else face h)
      in (h\<lparr>cd := HERO_SHOT_CD\<rparr>,
          Surge (h_pos h) dirv SURGE_SPEED_PLAYER OwnPlayer SURGE_R SURGE_LEN 1 False))"

subsection \<open>Enemies\<close>

text \<open>The three subclasses of \<open>Enemy\<close>, with the fields only they have: the tier of a
  Virus and the \<open>drop_t\<close> timer of a Worm.\<close>

datatype ekind = Virus int | Bug | Worm real

record enemy =
  e_pos :: vec
  e_r :: int
  e_hp :: int
  e_dir :: vec
  turn_bias :: real
  shoot_t :: real
  rep_cd :: real
  kind :: ekind

text \<open>\<open>type(ei) is type(ej)\<close>\<close>

fun same_type :: "ekind \<Rightarrow> ekind \<Rightarrow> bool" where
  "same_type (Virus _) (Virus _) = True"
| "same_type Bug Bug = True"
| "same_type (Worm _) (Worm _) = True"
| "same_type _ _ = False"

fun is_Virus :: "ekind \<Rightarrow> bool" where
  "is_Virus (Virus _) = True"
| "is_Virus _ = False"

text \<open>\<open>Enemy.__init__\<close> draws the direction, \<open>shoot_t\<close>, \<open>spin\<close> and \<open>angle\<close> (the last
  two are used by drawing only); the subclass draws \<open>shoot_t\<close> again.\<close>

definition Enemy_init :: "vec \<Rightarrow> int \<Rightarrow> int \<Rightarrow> ekind \<Rightarrow> rng \<Rightarrow> enemy \<times> rng" where
  "Enemy_init p rad hp k rg =
     (let (d, rg1) = choice cardinals rg;
          (st, rg2) = rand_between (1, 16 / 10) rg1;
          rg3 = skip 2 rg2
      in (\<lparr>e_pos = p, e_r = rad, e_hp = hp, e_dir = d, turn_bias = 25 / 100, shoot_t = st,
           rep_cd = 0, kind = k\<rparr>, rg3))"

definition Virus_init :: "vec \<Rightarrow> int \<Rightarrow> rng \<Rightarrow> enemy \<times> rng" where
  "Virus_init p tier rg =
     (let rad = (if tier = 2 then VIRUS_BASE_R else if tier = 1 then VIRUS_BASE_R - 6
                 else VIRUS_BASE_R - 10);
          hp = (if tier = 2 then 3 else if tier = 1 then 2 else 1);
          (e, rg1) = Enemy_init p rad hp (Virus tier) rg;
          (st, rg2) = rand_between VIRUS_SHOOT_CD rg1
      in (e\<lparr>turn_bias := 18 / 100, shoot_t := st\<rparr>, rg2))"

definition Bug_init :: "vec \<Rightarrow> rng \<Rightarrow> enemy \<times> rng" where
  "Bug_init p rg =
     (let (e, rg1) = Enemy_init p BUG_R 2 Bug rg;
          (st, rg2) = rand_between BUG_SHOOT_CD rg1
      in (e\<lparr>turn_bias := 45 / 100, shoot_t := st\<rparr>, rg2))"

definition Worm_init :: "vec \<Rightarrow> rng \<Rightarrow> enemy \<times> rng" where
  "Worm_init p rg =
     (let (e, rg1) = Enemy_init p WORM_R 4 (Worm 0) rg;
          (st, rg2) = rand_between WORM_SHOOT_CD rg1;
          (dr, rg3) = uniform (25 / 100) (55 / 100) rg2
      in (e\<lparr>turn_bias := 22 / 100, shoot_t := st, kind := Worm dr\<rparr>, rg3))"

text \<open>\<open>Enemy.common_move\<close>. The random call of the turn test is made only at an
  intersection (\<open>and\<close> short-circuits).\<close>

definition common_move :: "real \<Rightarrow> real \<Rightarrow> enemy \<Rightarrow> rng \<Rightarrow> enemy \<times> rng" where
  "common_move dt sp e rg =
     (let p0 = snap_axis (e_pos e) (e_dir e);
          p1 = vadd p0 (vscale (vscale (e_dir e) sp) dt);
          (p2, d2) = (if fst p1 < 12 \<or> fst p1 > W - 12
                      then (let q = (clamp (fst p1) 12 (W - 12), snd p1);
                                d = (fst (e_dir e) * -1, snd (e_dir e))
                            in (snap_axis q d, d))
                      else (p1, e_dir e));
          (p3, d3) = (if snd p2 < 12 \<or> snd p2 > H - 12
                      then (let q = (fst p2, clamp (snd p2) 12 (H - 12));
                                d = (fst d2, snd d2 * -1)
                            in (snap_axis q d, d))
                      else (p2, d2));
          (p4, d4, rg4) =
            (if at_intersection p3
             then (let (u, rg1) = py_random rg
                   in if u < turn_bias e * dt * 60
                      then (let (d, rg2) = (if \<bar>fst d3\<bar> > 0 then choice [(0, 1), (0, -1)] rg1
                                            else choice [(1, 0), (-1, 0)] rg1)
                            in (snap_axis p3 d, d, rg2))
                      else (p3, d3, rg1))
             else (p3, d3, rg));
          rc = (if rep_cd e > 0 then max 0 (rep_cd e - dt) else rep_cd e)
      in (e\<lparr>e_pos := p4, e_dir := d4, rep_cd := rc\<rparr>, rg4))"

text \<open>\<open>Enemy.take_damage\<close>: whether it died, and the enemy afterwards.\<close>

definition take_damage :: "int \<Rightarrow> enemy \<Rightarrow> bool \<times> enemy" where
  "take_damage d e = (e_hp e - d \<le> 0, e\<lparr>e_hp := e_hp e - d\<rparr>)"

text \<open>\<open>Virus.on_death\<close>: the children, for a Virus.\<close>

definition on_death :: "enemy \<Rightarrow> int \<Rightarrow> rng \<Rightarrow> enemy list \<times> rng" where
  "on_death e tier rg =
     (if tier > 0
      then (let (ux1, rg1) = uniform (-10) 10 rg;
                (uy1, rg2) = uniform (-10) 10 rg1;
                (c1, rg3) = Virus_init (vadd (e_pos e) (ux1, uy1)) (tier - 1) rg2;
                (ux2, rg4) = uniform (-10) 10 rg3;
                (uy2, rg5) = uniform (-10) 10 rg4;
                (c2, rg6) = Virus_init (vadd (e_pos e) (ux2, uy2)) (tier - 1) rg5
            in ([c1, c2], rg6))
      else ([], rg))"

subsection \<open>Natural surge trains\<close>

datatype axis = Row | Col

record emitter =
  axis :: axis
  fire_t :: real
  x_or_y :: real
  em_dir :: vec
  count :: int
  active :: bool

definition SurgeEmitter :: "axis \<Rightarrow> emitter" where
  "SurgeEmitter a = \<lparr>axis = a, fire_t = 0, x_or_y = 0, em_dir = (1, 0), count = 0, active = False\<rparr>"

definition schedule :: "emitter \<Rightarrow> rng \<Rightarrow> emitter \<times> rng" where
  "schedule em rg =
     (let (c, rg1) = randint 6 10 rg;
          (lane, rg2) = (if axis em = Row then randint 2 (\<lfloor>(H - 2) / GRID\<rfloor> - 2) rg1
                         else randint 2 (\<lfloor>(W - 2) / GRID\<rfloor> - 2) rg1);
          (u, rg3) = py_random rg2;
          d = (if axis em = Row then (if u < 1 / 2 then (1, 0) else (-1, 0))
               else (if u < 1 / 2 then (0, 1) else (0, -1)))
      in (em\<lparr>active := True, count := c, x_or_y := of_int lane * GRID, em_dir := d, fire_t := 0\<rparr>,
          rg3))"

text \<open>\<open>SurgeEmitter.update\<close>: the emitter afterwards and the surges it appended to the game.\<close>

definition emitter_update :: "real \<Rightarrow> emitter \<Rightarrow> emitter \<times> surge list" where
  "emitter_update dt em =
     (if \<not> active em then (em, [])
      else (let em1 = em\<lparr>fire_t := fire_t em - dt\<rparr>;
                (em2, out) =
                  (if fire_t em1 \<le> 0 \<and> count em1 > 0
                   then (let p = (if axis em1 = Row
                                  then (if fst (em_dir em1) > 0 then 12 else W - 12, x_or_y em1)
                                  else (x_or_y em1, if snd (em_dir em1) > 0 then 12 else H - 12))
                         in (em1\<lparr>fire_t := 7 / 100, count := count em1 - 1\<rparr>,
                             [Surge_default p (em_dir em1) SURGE_SPEED_NATURAL OwnNatural]))
                   else (em1, []))
            in (if count em2 \<le> 0 then em2\<lparr>active := False\<rparr> else em2, out)))"

subsection \<open>The game\<close>

datatype gstate = Menu | Play | Paused | Gameover | Sectorclear

record game =
  state :: gstate
  sector :: int
  score :: int
  highscore :: int
  hero :: hero
  enemies :: "enemy list"
  surges :: "surge list"
  glitches :: "(vec \<times> real) list"
  shake :: real
  fancy_vfx :: bool
  show_scans :: bool
  oc_blast_timer :: real
  nat_timer :: real
  emit_row :: emitter
  emit_col :: emitter
  rng :: rng

definition add_shake :: "real \<Rightarrow> game \<Rightarrow> game" where
  "add_shake amount g = (if fancy_vfx g then g\<lparr>shake := min 12 (shake g + amount)\<rparr> else g)"

definition spawn_glitch :: "vec \<Rightarrow> game \<Rightarrow> game" where
  "spawn_glitch p g = g\<lparr>glitches := glitches g @ [(p, 1)]\<rparr>"

definition random_grid_pos :: "rng \<Rightarrow> vec \<times> rng" where
  "random_grid_pos rg =
     (let (x, rg1) = randint 2 (\<lfloor>(W - 2) / GRID\<rfloor> - 2) rg;
          (y, rg2) = randint 2 (\<lfloor>(H - 2) / GRID\<rfloor> - 2) rg1
      in ((of_int x * GRID, of_int y * GRID), rg2))"

text \<open>The three loops of \<open>build_sector\<close>: n enemies made by the given constructor, each at a
  fresh \<open>random_grid_pos\<close>.\<close>

fun spawn_n :: "nat \<Rightarrow> (vec \<Rightarrow> rng \<Rightarrow> enemy \<times> rng) \<Rightarrow> rng \<Rightarrow> enemy list \<times> rng" where
  "spawn_n 0 mk rg = ([], rg)"
| "spawn_n (Suc n) mk rg =
     (let (p, rg1) = random_grid_pos rg;
          (e, rg2) = mk p rg1;
          (es, rg3) = spawn_n n mk rg2
      in (e # es, rg3))"

definition build_sector :: "int \<Rightarrow> int \<Rightarrow> int \<Rightarrow> game \<Rightarrow> game" where
  "build_sector n_virus n_bug n_worm g =
     (let (vs, rg1) = spawn_n (nat n_virus) (\<lambda>p. Virus_init p 2) (rng g);
          (bs, rg2) = spawn_n (nat n_bug) Bug_init rg1;
          (ws, rg3) = spawn_n (nat n_worm) Worm_init rg2;
          (nt, rg4) = rand_between NAT_SURGE_EVERY rg3
      in g\<lparr>enemies := vs @ bs @ ws, surges := [], glitches := [], hero := Hero CENTER,
           nat_timer := nt, emit_row := (emit_row g)\<lparr>active := False\<rparr>,
           emit_col := (emit_col g)\<lparr>active := False\<rparr>, oc_blast_timer := 0, rng := rg4\<rparr>)"

text \<open>The \<open>update\<close> methods of the three kinds: the enemy afterwards, its shots, and the
  game with the side effects (random draws, screen shake, dropped glitches).\<close>

definition Virus_update :: "real \<Rightarrow> enemy \<Rightarrow> game \<Rightarrow> enemy \<times> surge list \<times> game" where
  "Virus_update dt e g =
     (let (e1, rg1) = common_move dt VIRUS_SPEED e (rng g);
          e2 = e1\<lparr>shoot_t := shoot_t e1 - dt\<rparr>
      in if shoot_t e2 \<le> 0
         then (let shots = map (\<lambda>d. Surge_default (e_pos e2) d SURGE_SPEED_ENEMY OwnEnemy) cardinals;
                   (st, rg2) = rand_between VIRUS_SHOOT_CD rg1
               in (e2\<lparr>shoot_t := st\<rparr>, shots, add_shake 2 (g\<lparr>rng := rg2\<rparr>)))
         else (e2, [], g\<lparr>rng := rg1\<rparr>))"

definition Bug_update :: "real \<Rightarrow> enemy \<Rightarrow> game \<Rightarrow> enemy \<times> surge list \<times> game" where
  "Bug_update dt e g =
     (let (e1, rg1) = common_move dt BUG_SPEED e (rng g);
          e2 = e1\<lparr>shoot_t := shoot_t e1 - dt\<rparr>
      in if shoot_t e2 \<le> 0
         then (let to_hero = vsub (h_pos (hero g)) (e_pos e2);
                   d = cardinal_from to_hero;
                   shots = [Surge_default (e_pos e2) d (SURGE_SPEED_ENEMY * (105 / 100)) OwnEnemy];
                   (st, rg2) = rand_between BUG_SHOOT_CD rg1
               in (e2\<lparr>shoot_t := st\<rparr>, shots, g\<lparr>rng := rg2\<rparr>))
         else (e2, [], g\<lparr>rng := rg1\<rparr>))"

definition Worm_update :: "real \<Rightarrow> real \<Rightarrow> enemy \<Rightarrow> game \<Rightarrow> enemy \<times> surge list \<times> game" where
  "Worm_update dt drop_t e g =
     (let (e1, rg1) = common_move dt WORM_SPEED e (rng g);
          g1 = g\<lparr>rng := rg1\<rparr>;
          dr = drop_t - dt;
          (dr2, g2) = (if dr \<le> 0
                       then (let g' = spawn_glitch (e_pos e1) g1;
                                 (d', rg') = uniform (35 / 100) (65 / 100) (rng g')
                             in (d', g'\<lparr>rng := rg'\<rparr>))
                       else (dr, g1));
          e2 = e1\<lparr>kind := Worm dr2, shoot_t := shoot_t e1 - dt\<rparr>
      in if shoot_t e2 \<le> 0
         then (let dirs = (if \<bar>fst (e_dir e2)\<bar> > 0 then [(1, 0), (-1, 0)] else [(0, 1), (0, -1)]);
                   shots = map (\<lambda>d. Surge_default (e_pos e2) d (SURGE_SPEED_ENEMY * (95 / 100)) OwnEnemy) dirs;
                   (st, rg3) = rand_between WORM_SHOOT_CD (rng g2)
               in (e2\<lparr>shoot_t := st\<rparr>, shots, add_shake 2 (g2\<lparr>rng := rg3\<rparr>)))
         else (e2, [], g2))"

definition enemy_update :: "real \<Rightarrow> enemy \<Rightarrow> game \<Rightarrow> enemy \<times> surge list \<times> game" where
  "enemy_update dt e g =
     (case kind e of Virus _ \<Rightarrow> Virus_update dt e g
                   | Bug \<Rightarrow> Bug_update dt e g
                   | Worm drop_t \<Rightarrow> Worm_update dt drop_t e g)"

subsection \<open>Input of one frame\<close>

datatype event = QUIT | KEYDOWN key | MOUSEBUTTONDOWN int | OTHER_EVENT

record frame_input =
  frame_dt :: real
  frame_keys :: "key \<Rightarrow> bool"
  mouse_pos :: vec
  mouse_pressed :: bool
  events :: "event list"

subsection \<open>\<open>Game.update\<close>, phase by phase\<close>

definition hero_phase :: "frame_input \<Rightarrow> game \<Rightarrow> game" where
  "hero_phase inp g = g\<lparr>hero := Hero_update (frame_dt inp) (frame_keys inp) (hero g)\<rparr>"

definition blast_surges :: "vec \<Rightarrow> surge list" where
  "blast_surges p =
     map (\<lambda>d. Surge p d OC_SURGE_SPEED OwnOc OC_SURGE_R OC_SURGE_TTL OC_SURGE_DMG True) cardinals"

definition fire_overclock_blast :: "game \<Rightarrow> game" where
  "fire_overclock_blast g =
     g\<lparr>surges := surges g @ blast_surges (h_pos (hero g)),
       hero := reset_overclock (hero g),
       rng := spark 14 (rng g)\<rparr>"

text \<open>The blast trigger of \<open>update\<close>, and the shake kept up while the blast timer runs.\<close>

definition blast_trigger :: "frame_input \<Rightarrow> game \<Rightarrow> game" where
  "blast_trigger inp g =
     (if (frame_keys inp K_LSHIFT \<or> frame_keys inp K_RSHIFT) \<and> ready_overclock (hero g)
      then add_shake OC_BLAST_SHAKE_STRENGTH
             ((fire_overclock_blast g)\<lparr>oc_blast_timer := OC_BLAST_SHAKE_TIME\<rparr>)
      else g)"

definition blast_shake :: "frame_input \<Rightarrow> game \<Rightarrow> game" where
  "blast_shake inp g =
     (if oc_blast_timer g > 0
      then add_shake (OC_BLAST_SHAKE_STRENGTH * (75 / 100))
             (g\<lparr>oc_blast_timer := max 0 (oc_blast_timer g - frame_dt inp)\<rparr>)
      else g)"

definition fire_phase :: "frame_input \<Rightarrow> game \<Rightarrow> game" where
  "fire_phase inp g =
     (let aim = vsub (mouse_pos inp) (h_pos (hero g))
      in if (mouse_pressed inp \<or> frame_keys inp K_SPACE) \<and> can_shoot (hero g)
         then (let (h', s) = shoot aim (hero g)
               in add_shake SHAKE_SHOOT (g\<lparr>hero := h', surges := surges g @ [s]\<rparr>))
         else g)"

definition natural_phase :: "frame_input \<Rightarrow> game \<Rightarrow> game" where
  "natural_phase inp g =
     (let g1 = (if \<not> (active (emit_row g) \<or> active (emit_col g))
                then (let g' = g\<lparr>nat_timer := nat_timer g - frame_dt inp\<rparr>
                      in if nat_timer g' \<le> 0
                         then (let (u, rg1) = py_random (rng g');
                                   g'' = (if u < 1 / 2
                                          then (let (em, rg2) = schedule (emit_row g') rg1
                                                in g'\<lparr>emit_row := em, rng := rg2\<rparr>)
                                          else (let (em, rg2) = schedule (emit_col g') rg1
                                                in g'\<lparr>emit_col := em, rng := rg2\<rparr>));
                                   (nt, rg3) = rand_between NAT_SURGE_EVERY (rng g'')
                               in g''\<lparr>nat_timer := nt, rng := rg3\<rparr>)
                         else g')
                else g);
          (er, out_r) = emitter_update (frame_dt inp) (emit_row g1);
          g2 = g1\<lparr>emit_row := er, surges := surges g1 @ out_r\<rparr>;
          (ec, out_c) = emitter_update (frame_dt inp) (emit_col g2)
      in g2\<lparr>emit_col := ec, surges := surges g2 @ out_c\<rparr>)"

text \<open>The loop \<open>for e in list(self.enemies)\<close>: every enemy is updated in place, in order.\<close>

fun update_enemies :: "real \<Rightarrow> enemy list \<Rightarrow> game \<Rightarrow> enemy list \<times> surge list \<times> game" where
  "update_enemies dt [] g = ([], [], g)"
| "update_enemies dt (e # es) g =
     (let (e', shots, g1) = enemy_update dt e g;
          (es', more, g2) = update_enemies dt es g1
      in (e' # es', shots @ more, g2))"

definition enemies_phase :: "frame_input \<Rightarrow> game \<Rightarrow> game" where
  "enemies_phase inp g =
     (let (es', new_surges, g1) = update_enemies (frame_dt inp) (enemies g) g
      in g1\<lparr>enemies := es', surges := surges g1 @ new_surges\<rparr>)"

subsection \<open>\<open>handle_enemy_mitosis\<close>\<close>

text \<open>The body of the inner loop for the pair \<open>(i, j)\<close>. The state is the game, whose
  enemies are mutated in place, and the list \<open>to_add\<close>.\<close>

definition mitosis_child :: "enemy \<Rightarrow> vec \<Rightarrow> rng \<Rightarrow> enemy \<times> rng" where
  "mitosis_child ei p rg =
     (case kind ei of Virus tier \<Rightarrow> Virus_init p tier rg
                    | Bug \<Rightarrow> Bug_init p rg
                    | Worm _ \<Rightarrow> Worm_init p rg)"

definition mitosis_pair :: "nat \<Rightarrow> nat \<Rightarrow> game \<times> enemy list \<Rightarrow> game \<times> enemy list" where
  "mitosis_pair i j st =
     (let g = fst st; to_add = snd st; ei = enemies g ! i; ej = enemies g ! j
      in if \<not> same_type (kind ei) (kind ej) then st
         else if rep_cd ei > 0 \<or> rep_cd ej > 0 then st
         else if distance_to (e_pos ei) (e_pos ej) \<le> of_int (e_r ei + e_r ej)
         then (if length (enemies g) + length to_add \<ge> MAX_ENEMIES_ON_FIELD then st
               else (let (ux, rg1) = uniform (-6) 6 (rng g);
                         (uy, rg2) = uniform (-6) 6 rg1;
                         p = vadd (vscale (vadd (e_pos ei) (e_pos ej)) (1 / 2)) (ux, uy);
                         (child, rg3) = mitosis_child ei p rg2;
                         es' = (enemies g)[i := ei\<lparr>rep_cd := 75 / 100\<rparr>];
                         es'' = es'[j := (es' ! j)\<lparr>rep_cd := 75 / 100\<rparr>]
                     in (g\<lparr>enemies := es'', rng := spark 10 rg3\<rparr>,
                         to_add @ [child\<lparr>rep_cd := 75 / 100\<rparr>])))
         else st)"

definition mitosis_loops :: "game \<Rightarrow> game \<times> enemy list" where
  "mitosis_loops g =
     (let n = length (enemies g)
      in fold (\<lambda>i st. fold (mitosis_pair i) [i + 1 ..< n] st) [0 ..< n] (g, []))"

definition handle_enemy_mitosis :: "game \<Rightarrow> game" where
  "handle_enemy_mitosis g =
     (let (g1, to_add) = mitosis_loops g
      in if to_add \<noteq> [] then g1\<lparr>enemies := enemies g1 @ to_add\<rparr> else g1)"

subsection \<open>Glitches and surge motion\<close>

definition glitches_decay :: "frame_input \<Rightarrow> game \<Rightarrow> game" where
  "glitches_decay inp g =
     g\<lparr>glitches := map (\<lambda>(p, a). (p, max 0 (a - frame_dt inp * (1 / 2))))
                     (filter (\<lambda>(p, a). a - frame_dt inp * (1 / 2) > 0) (glitches g))\<rparr>"

text \<open>\<open>[s for s in self.surges if s.update(dt)]\<close>: every surge moves, the dead are dropped.\<close>

definition surges_move :: "frame_input \<Rightarrow> game \<Rightarrow> game" where
  "surges_move inp g =
     g\<lparr>surges := map snd (filter fst (map (Surge_update (frame_dt inp)) (surges g)))\<rparr>"

subsection \<open>\<open>handle_surge_cancels\<close>\<close>

definition is_friend :: "owner \<Rightarrow> bool" where
  "is_friend ow \<longleftrightarrow> ow = OwnPlayer \<or> ow = OwnOc"

definition is_foe :: "owner \<Rightarrow> bool" where
  "is_foe ow \<longleftrightarrow> ow = OwnEnemy \<or> ow = OwnNatural"

text \<open>The clash test of a pair: one side friendly, the other hostile, and in range.\<close>

definition clash :: "surge \<Rightarrow> surge \<Rightarrow> bool" where
  "clash si sj \<longleftrightarrow>
     ((is_friend (owner si) \<and> is_foe (owner sj)) \<or> (is_friend (owner sj) \<and> is_foe (owner si)))
     \<and> distance_to (s_pos si) (s_pos sj) \<le> of_int (s_r si + s_r sj + 1)"

text \<open>The body of the inner loop for the pair \<open>(i, j)\<close>, from \<open>if j in dead: continue\<close> on.
  The state is the set \<open>dead\<close> of indices and the game (meter and random draws).\<close>

definition cancel_pair :: "nat \<Rightarrow> nat \<Rightarrow> nat set \<times> game \<Rightarrow> nat set \<times> game" where
  "cancel_pair i j st =
     (let dead = fst st; g = snd st; si = surges g ! i; sj = surges g ! j
      in if j \<in> dead then st
         else if clash si sj
         then (let dead' = (if owner si = OwnOc \<and> is_foe (owner sj) then insert j dead
                            else if owner sj = OwnOc \<and> is_foe (owner si) then insert i dead
                            else insert i (insert j dead));
                   g1 = g\<lparr>rng := spark 8 (rng g)\<rparr>
               in (dead', if owner si = OwnPlayer \<or> owner sj = OwnPlayer
                          then g1\<lparr>hero := add_oc OC_FILL_PER_CANCEL (hero g1)\<rparr> else g1))
         else st)"

text \<open>One iteration of the outer loop: \<open>if i in dead: continue\<close> is tested once, before the
  inner loop starts.\<close>

definition cancel_row :: "nat \<Rightarrow> nat \<Rightarrow> nat set \<times> game \<Rightarrow> nat set \<times> game" where
  "cancel_row n i st = (if i \<in> fst st then st else fold (cancel_pair i) [i + 1 ..< n] st)"

definition cancel_loops :: "game \<Rightarrow> nat set \<times> game" where
  "cancel_loops g = fold (cancel_row (length (surges g))) [0 ..< length (surges g)] ({}, g)"

text \<open>\<open>[s for k, s in enumerate(self.surges) if k not in dead]\<close>\<close>

definition drop_dead :: "nat set \<Rightarrow> 'a list \<Rightarrow> 'a list" where
  "drop_dead dead xs = map snd (filter (\<lambda>(k, s). k \<notin> dead) (enumerate 0 xs))"

definition handle_surge_cancels :: "game \<Rightarrow> game" where
  "handle_surge_cancels g =
     (let (dead, g1) = cancel_loops g
      in if dead \<noteq> {} then g1\<lparr>surges := drop_dead dead (surges g1)\<rparr> else g1)"

subsection \<open>\<open>handle_surge_hits\<close>\<close>

text \<open>\<open>for child in e.on_death(): if len(self.enemies) < MAX_ENEMIES_ON_FIELD: append\<close>\<close>

fun append_capped :: "enemy list \<Rightarrow> enemy list \<Rightarrow> enemy list" where
  "append_capped es [] = es"
| "append_capped es (c # cs) =
     append_capped (if length es < MAX_ENEMIES_ON_FIELD then es @ [c] else es) cs"

definition remove_nth :: "nat \<Rightarrow> 'a list \<Rightarrow> 'a list" where
  "remove_nth k xs = take k xs @ drop (Suc k) xs"

text \<open>
  What a friendly surge \<open>s\<close> does to the enemy at index \<open>k\<close> of \<open>self.enemies\<close> once it
  touches it: damage, score and meter, and on death the removal of the enemy, the capped
  insertion of the children of a Virus, and the kill bonus. The result says whether the
  enemy died.
\<close>

definition hit_one :: "surge \<Rightarrow> nat \<Rightarrow> game \<Rightarrow> bool \<times> game" where
  "hit_one s k g =
     (let (died, e') = take_damage (dmg s) (enemies g ! k);
          g1 = g\<lparr>enemies := (enemies g)[k := e'], rng := spark 10 (rng g)\<rparr>;
          g2 = (if owner s = OwnPlayer
                then g1\<lparr>score := score g1 + 45, hero := add_oc OC_FILL_PER_KILL (hero g1)\<rparr>
                else g1\<lparr>score := score g1 + 35\<rparr>)
      in if died
         then (let ga = g2\<lparr>rng := spark 18 (rng g2), enemies := remove_nth k (enemies g2)\<rparr>;
                   gb = (case kind e' of
                           Virus tier \<Rightarrow>
                             (let (children, rg) = on_death e' tier (rng ga)
                              in ga\<lparr>enemies := append_capped (enemies ga) children, rng := rg\<rparr>)
                         | _ \<Rightarrow> ga)
               in (True, gb\<lparr>score := score gb + (if owner s = OwnPlayer then 120 else 90)\<rparr>))
         else (False, g2))"

text \<open>
  The loop \<open>for e in list(self.enemies)\<close> of a friendly surge \<open>s\<close>. The loop runs over a
  snapshot while \<open>self.enemies\<close> changes: a dead enemy is removed and children are appended
  at the end. \<open>m\<close> counts the snapshot's enemies still to visit and \<open>k\<close> is the index of the
  next of them in the live list. The result says whether the surge was consumed (a surge
  that does not pierce is removed at its first hit, and the loop breaks).
\<close>

fun hit_enemies :: "surge \<Rightarrow> nat \<Rightarrow> nat \<Rightarrow> game \<Rightarrow> bool \<times> game" where
  "hit_enemies s 0 k g = (False, g)"
| "hit_enemies s (Suc m) k g =
     (if distance_to (e_pos (enemies g ! k)) (s_pos s) \<le> of_int (e_r (enemies g ! k) + s_r s)
      then (let (died, g3) = hit_one s k g
            in if \<not> pierce s then (True, g3)
               else hit_enemies s m (if died then k else Suc k) g3)
      else hit_enemies s m (Suc k) g)"

text \<open>The hostile branch: a surge touching the hero is removed and the hero is hurt.\<close>

definition hit_hero :: "surge \<Rightarrow> nat \<Rightarrow> game \<Rightarrow> bool \<times> game" where
  "hit_hero s k g =
     (if distance_to (h_pos (hero g)) (s_pos s) \<le> of_int (h_r (hero g) + s_r s)
      then (let g1 = g\<lparr>surges := remove_nth k (surges g)\<rparr>;
                (ok, h') = hurt (hero g1)
            in (True, if ok then add_shake 6 (g1\<lparr>hero := h'\<rparr>) else g1\<lparr>hero := h'\<rparr>))
      else (False, g))"

text \<open>The loop \<open>for s in list(self.surges)\<close>, over a snapshot as well: \<open>m\<close> surges still to
  visit, the next at index \<open>k\<close> of the live list; a consumed surge is removed there.\<close>

fun hit_surges :: "nat \<Rightarrow> nat \<Rightarrow> game \<Rightarrow> game" where
  "hit_surges 0 k g = g"
| "hit_surges (Suc m) k g =
     (let s = surges g ! k
      in if owner s = OwnPlayer \<or> owner s = OwnOc
         then (let (consumed, g1) = hit_enemies s (length (enemies g)) 0 g
               in if consumed then hit_surges m k (g1\<lparr>surges := remove_nth k (surges g1)\<rparr>)
                  else hit_surges m (Suc k) g1)
         else (let (removed, g1) = hit_hero s k g
               in hit_surges m (if removed then k else Suc k) g1))"

definition handle_surge_hits :: "game \<Rightarrow> game" where
  "handle_surge_hits g = hit_surges (length (surges g)) 0 g"

subsection \<open>Hazards, end of the sector, and the whole update\<close>

definition glitch_hit :: "vec \<times> real \<Rightarrow> game \<Rightarrow> game" where
  "glitch_hit gl g =
     (if distance_to (h_pos (hero g)) (fst gl) \<le> of_int (h_r (hero g) + 7)
      then (let (ok, h') = hurt (hero g)
            in if ok then add_shake 5 (g\<lparr>hero := h'\<rparr>) else g\<lparr>hero := h'\<rparr>)
      else g)"

definition glitch_hazards :: "game \<Rightarrow> game" where
  "glitch_hazards g = fold glitch_hit (glitches g) g"

definition win_lose :: "game \<Rightarrow> game" where
  "win_lose g =
     (if \<not> alive (hero g) then g\<lparr>state := Gameover, highscore := max (highscore g) (score g)\<rparr>
      else if length (enemies g) = 0
      then g\<lparr>state := Sectorclear, highscore := max (highscore g) (score g)\<rparr>
      else g)"

definition shake_decay :: "game \<Rightarrow> game" where
  "shake_decay g =
     (if shake g > 0 then g\<lparr>shake := max 0 (shake g - SHAKE_DECAY * (1 / FPS))\<rparr> else g)"

text \<open>\<open>update\<close> is split after the blast trigger: \<open>update_rest\<close> is everything that
  follows it.\<close>

definition update_rest :: "frame_input \<Rightarrow> game \<Rightarrow> game" where
  "update_rest inp g2 =
     (let g3 = blast_shake inp g2;
          g4 = fire_phase inp g3;
          g5 = natural_phase inp g4;
          g6 = enemies_phase inp g5;
          g7 = handle_enemy_mitosis g6;
          g8 = glitches_decay inp g7;
          g9 = surges_move inp g8;
          g10 = handle_surge_cancels g9;
          g11 = handle_surge_hits g10;
          g12 = glitch_hazards g11;
          g13 = win_lose g12
      in shake_decay g13)"

definition update :: "frame_input \<Rightarrow> game \<Rightarrow> game" where
  "update inp g =
     (if state g = Menu then g
      else if state g = Gameover \<or> state g = Sectorclear then g
      else update_rest inp (blast_trigger inp (hero_phase inp g)))"

subsection \<open>Events and the main loop\<close>

definition start_game :: "game \<Rightarrow> game" where
  "start_game g =
     (case SECTOR_START_ENEMIES of (v, b, w) \<Rightarrow>
        (build_sector v b w (g\<lparr>score := 0, sector := 1\<rparr>))\<lparr>state := Play\<rparr>)"

definition next_sector :: "game \<Rightarrow> game" where
  "next_sector g =
     (case SECTOR_START_ENEMIES of (v, b, w) \<Rightarrow>
        (let g1 = g\<lparr>sector := sector g + 1\<rparr>;
             add = sector g1 div 2
         in (build_sector (v + add) (b + add) (w + (if sector g1 mod 3 = 0 then 1 else 0)) g1)
              \<lparr>state := Play\<rparr>))"

text \<open>One event of \<open>handle_events\<close>: \<open>False\<close> when the loop returns \<open>False\<close> (quit).\<close>

fun handle_event :: "event \<Rightarrow> game \<Rightarrow> bool \<times> game" where
  "handle_event QUIT g = (False, g)"
| "handle_event (KEYDOWN k) g =
     (if k = K_ESCAPE then (False, g)
      else (let g1 = (if k = K_p \<and> (state g = Play \<or> state g = Paused)
                      then g\<lparr>state := (if state g = Play then Paused else Play)\<rparr> else g);
                g2 = (if k = K_v then g1\<lparr>fancy_vfx := \<not> fancy_vfx g1\<rparr> else g1);
                g3 = (if k = K_m then g2\<lparr>show_scans := \<not> show_scans g2\<rparr> else g2);
                g4 = (if k = K_r \<and> state g3 = Gameover then start_game g3 else g3);
                g5 = (if state g4 = Menu \<and> (k = K_SPACE \<or> k = K_RETURN) then start_game g4 else g4);
                g6 = (if state g5 = Sectorclear \<and> (k = K_SPACE \<or> k = K_RETURN)
                      then next_sector g5 else g5)
            in (True, g6)))"
| "handle_event (MOUSEBUTTONDOWN b) g =
     (let g1 = (if state g = Menu \<and> b = 1 then start_game g else g);
          g2 = (if state g1 = Sectorclear \<and> b = 1 then next_sector g1 else g1)
      in (True, g2))"
| "handle_event OTHER_EVENT g = (True, g)"

fun handle_events :: "event list \<Rightarrow> game \<Rightarrow> bool \<times> game" where
  "handle_events [] g = (True, g)"
| "handle_events (e # es) g =
     (case handle_event e g of (False, g') \<Rightarrow> (False, g')
                             | (True, g') \<Rightarrow> handle_events es g')"

text \<open>The part of an iteration of the loop of \<open>Game.run\<close> after the events have been
  handled, without the drawing: a paused game skips \<open>update\<close>.\<close>

definition advance_frame :: "frame_input \<Rightarrow> game \<Rightarrow> game" where
  "advance_frame inp g = (if state g = Paused then g else update inp g)"

text \<open>One iteration of the loop: \<open>None\<close> when \<open>run\<close> returns.\<close>

definition run_frame :: "frame_input \<Rightarrow> game \<Rightarrow> game option" where
  "run_frame inp g =
     (case handle_events (events inp) g of
        (False, g') \<Rightarrow> None
      | (True, g') \<Rightarrow> Some (advance_frame inp g'))"

text \<open>\<open>Game.run\<close> over the inputs of finitely many frames: the game after the last of
  them, or at the frame in which the loop returned.\<close>

fun run :: "frame_input list \<Rightarrow> game \<Rightarrow> game" where
  "run [] g = g"
| "run (inp # rest) g = (case run_frame inp g of None \<Rightarrow> g | Some g' \<Rightarrow> run rest g')"

subsection \<open>Concrete inputs\<close>

definition idle_input :: frame_input where
  "idle_input = \<lparr>frame_dt = 1 / 60, frame_keys = (\<lambda>k. False), mouse_pos = (0, 0),
                  mouse_pressed = False, events = []\<rparr>"

definition demo_game :: game where
  "demo_game = \<lparr>state = Play, sector = 1, score = 0, highscore = 0, hero = Hero CENTER,
                 enemies = [], surges = [], glitches = [], shake = 0, fancy_vfx = True,
                 show_scans = True, oc_blast_timer = 0, nat_timer = 3,
                 emit_row = SurgeEmitter Row, emit_col = SurgeEmitter Col,
                 rng = (\<lambda>n. 1 / 2)\<rparr>"

text \<open>A surge of each owner as the game makes it, on the wire \<open>y = 288\<close> at \<open>x = 480\<close>:
  the friendly ones fly right, the hostile ones left.\<close>

definition demo_surge :: "owner \<Rightarrow> surge" where
  "demo_surge ow =
     (case ow of
        OwnPlayer \<Rightarrow> Surge (480, 288) (1, 0) SURGE_SPEED_PLAYER OwnPlayer SURGE_R SURGE_LEN 1 False
      | OwnOc \<Rightarrow> Surge (480, 288) (1, 0) OC_SURGE_SPEED OwnOc OC_SURGE_R OC_SURGE_TTL OC_SURGE_DMG True
      | OwnEnemy \<Rightarrow> Surge_default (480, 288) (-1, 0) SURGE_SPEED_ENEMY OwnEnemy
      | OwnNatural \<Rightarrow> Surge_default (480, 288) (-1, 0) SURGE_SPEED_NATURAL OwnNatural)"

text \<open>Enemies as their constructors make them, at the centre of the field.\<close>

definition demo_virus :: "int \<Rightarrow> enemy" where
  "demo_virus tier = fst (Virus_init CENTER tier (\<lambda>n. 1 / 2))"

definition demo_bug :: enemy where
  "demo_bug = fst (Bug_init CENTER (\<lambda>n. 1 / 2))"

text \<open>Three surges at the same place.\<close>

definition three_surges :: "owner \<Rightarrow> owner \<Rightarrow> owner \<Rightarrow> game" where
  "three_surges a b c = demo_game\<lparr>surges := [demo_surge a, demo_surge b, demo_surge c]\<rparr>"


section \<open>Properties\<close>

subsection \<open>Auxiliary facts\<close>

lemmas const_defs =
  W_def H_def FPS_def GRID_def JUNC_TOL_def HERO_R_def HERO_SPEED_def HERO_IFRAMES_def
  HERO_SHOT_CD_def HERO_HP_def SURGE_R_def SURGE_LEN_def SURGE_SPEED_PLAYER_def
  SURGE_SPEED_ENEMY_def SURGE_SPEED_NATURAL_def OC_FILL_PER_CANCEL_def OC_FILL_PER_KILL_def
  OC_MAX_def OC_SURGE_R_def OC_SURGE_SPEED_def OC_SURGE_TTL_def OC_SURGE_DMG_def
  OC_BLAST_SHAKE_TIME_def OC_BLAST_SHAKE_STRENGTH_def VIRUS_BASE_R_def BUG_R_def WORM_R_def
  VIRUS_SPEED_def BUG_SPEED_def WORM_SPEED_def VIRUS_SHOOT_CD_def BUG_SHOOT_CD_def
  WORM_SHOOT_CD_def SECTOR_START_ENEMIES_def NAT_SURGE_EVERY_def MAX_ENEMIES_ON_FIELD_def
  SHAKE_DECAY_def SHAKE_SHOOT_def

lemma distance_to_le:
  "distance_to a b \<le> r \<longleftrightarrow> 0 \<le> r \<and> length_squared (vsub a b) \<le> r * r"
proof -
  have nn: "0 \<le> length_squared (vsub a b)"
    by (simp add: length_squared_def)
  show ?thesis
  proof (cases "0 \<le> r")
    case True
    then have "sqrt (length_squared (vsub a b)) \<le> r \<longleftrightarrow> length_squared (vsub a b) \<le> r\<^sup>2"
      using nn by (metis real_sqrt_le_iff real_sqrt_abs abs_of_nonneg)
    then show ?thesis
      using True by (simp add: distance_to_def power2_eq_square)
  next
    case False
    then have "\<not> sqrt (length_squared (vsub a b)) \<le> r"
      using nn by (meson order_trans real_sqrt_ge_zero)
    then show ?thesis
      using False by (simp add: distance_to_def)
  qed
qed

lemma distance_to_self [simp]: "distance_to a a = 0"
  by (simp add: distance_to_def vsub_def length_squared_def)

lemma cardinal_from_simps:
  "cardinal_from (1, 0) = (1, 0)" "cardinal_from (-1, 0) = (-1, 0)"
  "cardinal_from (0, 1) = (0, 1)" "cardinal_from (0, -1) = (0, -1)"
  by (simp_all add: cardinal_from_def length_squared_def)

lemma Hero_update_meter: "oc_meter (Hero_update d ks h) = oc_meter h"
  by (simp add: Hero_update_def Let_def)

lemma Hero_update_hp: "h_hp (Hero_update d ks h) = h_hp h"
  by (simp add: Hero_update_def Let_def)

subsection \<open>Damage to the hero\<close>


subsection \<open>The overclock meter in the cancellation pass\<close>

text \<open>
  Claim C4. A pairing that the cancellation pass resolves (the pair clashes and the
  higher index is not yet marked dead) changes the meter as follows: when one of the two
  surges is a plain player surge the meter becomes \<open>clamp (meter + OC_FILL_PER_CANCEL) 0
  OC_MAX\<close>, which is at most \<open>OC_MAX\<close> and, for a meter that was not negative, is the
  meter plus \<open>OC_FILL_PER_CANCEL\<close> cut off at \<open>OC_MAX\<close>; otherwise (the friendly side is
  an overclock surge) the meter is unchanged.
\<close>

theorem cancel_meter_award:
  assumes "j \<notin> fst st" and "clash (surges (snd st) ! i) (surges (snd st) ! j)"
  shows "oc_meter (hero (snd (cancel_pair i j st))) =
           (if owner (surges (snd st) ! i) = OwnPlayer \<or> owner (surges (snd st) ! j) = OwnPlayer
            then clamp (oc_meter (hero (snd st)) + OC_FILL_PER_CANCEL) 0 OC_MAX
            else oc_meter (hero (snd st)))
         \<and> clamp (oc_meter (hero (snd st)) + OC_FILL_PER_CANCEL) 0 OC_MAX \<le> OC_MAX
         \<and> (0 \<le> oc_meter (hero (snd st)) \<longrightarrow>
              clamp (oc_meter (hero (snd st)) + OC_FILL_PER_CANCEL) 0 OC_MAX =
              min (oc_meter (hero (snd st)) + OC_FILL_PER_CANCEL) OC_MAX)"
  using assms by (simp add: cancel_pair_def Let_def add_oc_def clamp_def const_defs)

theorem cancel_meter_award_witness:
  "oc_meter (hero (snd (cancel_pair 0 1
      ({}, demo_game\<lparr>surges := [demo_surge OwnPlayer, demo_surge OwnEnemy]\<rparr>)))) = 8
   \<and> oc_meter (hero (snd (cancel_pair 0 1
      ({}, demo_game\<lparr>surges := [demo_surge OwnOc, demo_surge OwnEnemy]\<rparr>)))) = 0"
proof -
  have c: "clash (demo_surge OwnPlayer) (demo_surge OwnEnemy)"
    "clash (demo_surge OwnOc) (demo_surge OwnEnemy)"
    by (simp_all add: clash_def demo_surge_def Surge_default_def Surge_def is_friend_def is_foe_def
        const_defs)
  have o: "owner (demo_surge OwnPlayer) = OwnPlayer" "owner (demo_surge OwnEnemy) = OwnEnemy"
    "owner (demo_surge OwnOc) = OwnOc"
    by (simp_all add: demo_surge_def Surge_default_def Surge_def)
  have m: "oc_meter (hero demo_game) = 0"
    by (simp add: demo_game_def Hero_def)
  show ?thesis
    using cancel_meter_award [of 1 "({}, demo_game\<lparr>surges := [demo_surge OwnPlayer, demo_surge OwnEnemy]\<rparr>)" 0]
      cancel_meter_award [of 1 "({}, demo_game\<lparr>surges := [demo_surge OwnOc, demo_surge OwnEnemy]\<rparr>)" 0]
      c o m
    by (simp add: clamp_def const_defs)
qed

subsection \<open>The overclock blast\<close>

text \<open>
  Claim C5. In a play-state update with a full meter and the blast key held, the blast
  trigger (which runs right after the hero has moved) appends exactly four surges to the
  surge list, one for each of the directions right, left, down and up, all at the hero's
  position, all piercing and owned by the overclock faction, and sets the meter to 0.
\<close>

theorem blast_spawns_four:
  assumes "state g = Play" and "frame_keys inp K_LSHIFT \<or> frame_keys inp K_RSHIFT"
    and "oc_meter (hero g) \<ge> OC_MAX"
  shows "update inp g = update_rest inp (blast_trigger inp (hero_phase inp g))
    \<and> surges (blast_trigger inp (hero_phase inp g)) =
        surges g @ map (\<lambda>d. \<lparr>s_pos = h_pos (hero (hero_phase inp g)), s_dir = d,
                              speed = OC_SURGE_SPEED, ttl = OC_SURGE_TTL, owner = OwnOc,
                              s_r = OC_SURGE_R, dmg = OC_SURGE_DMG, pierce = True\<rparr>)
                       [(1, 0), (-1, 0), (0, 1), (0, -1)]
    \<and> oc_meter (hero (blast_trigger inp (hero_phase inp g))) = 0"
  using assms
  by (simp add: update_def blast_trigger_def hero_phase_def ready_overclock_def Hero_update_meter
      fire_overclock_blast_def add_shake_def blast_surges_def cardinals_def Surge_def
      cardinal_from_simps reset_overclock_def)

theorem blast_spawns_four_witness:
  "length (surges (blast_trigger (idle_input\<lparr>frame_keys := (\<lambda>k. k = K_LSHIFT)\<rparr>)
      (hero_phase (idle_input\<lparr>frame_keys := (\<lambda>k. k = K_LSHIFT)\<rparr>)
         (demo_game\<lparr>hero := (Hero CENTER)\<lparr>oc_meter := 200\<rparr>\<rparr>)))) = 4
   \<and> oc_meter (hero (blast_trigger (idle_input\<lparr>frame_keys := (\<lambda>k. k = K_LSHIFT)\<rparr>)
      (hero_phase (idle_input\<lparr>frame_keys := (\<lambda>k. k = K_LSHIFT)\<rparr>)
         (demo_game\<lparr>hero := (Hero CENTER)\<lparr>oc_meter := 200\<rparr>\<rparr>)))) = 0"
  using blast_spawns_four [of "demo_game\<lparr>hero := (Hero CENTER)\<lparr>oc_meter := 200\<rparr>\<rparr>"
      "idle_input\<lparr>frame_keys := (\<lambda>k. k = K_LSHIFT)\<rparr>"]
  by (simp add: demo_game_def idle_input_def OC_MAX_def)

subsection \<open>Frames outside of play\<close>

text \<open>
  Claim C8. When the game is in a state other than play once the events of the frame have
  been handled (menu, paused, gameover or sectorclear), the rest of the frame changes
  nothing at all: the whole game value, and so the hero, the enemies, the surges, the
  hazards, the score and the meter, is the same afterwards. So a loop iteration whose
  events leave the game outside of play ends with the game as the events left it, and with
  no event in the frame it ends with the game it started with.
\<close>

theorem frozen_outside_play:
  "(state g \<noteq> Play \<longrightarrow> advance_frame inp g = g)
   \<and> (\<forall>g'. handle_events (events inp) g = (True, g') \<and> state g' \<noteq> Play \<longrightarrow>
          run_frame inp g = Some g')
   \<and> (state g \<noteq> Play \<and> events inp = [] \<longrightarrow> run_frame inp g = Some g)"
proof -
  have a: "advance_frame inp x = x" if "state x \<noteq> Play" for x
    using that by (cases "state x") (simp_all add: advance_frame_def update_def)
  show ?thesis
    using a by (auto simp: run_frame_def)
qed

theorem frozen_outside_play_witness:
  "advance_frame idle_input (demo_game\<lparr>state := Paused\<rparr>) = demo_game\<lparr>state := Paused\<rparr>
   \<and> run_frame idle_input (demo_game\<lparr>state := Gameover\<rparr>) = Some (demo_game\<lparr>state := Gameover\<rparr>)
   \<and> run_frame (idle_input\<lparr>events := [KEYDOWN K_p]\<rparr>) demo_game = Some (demo_game\<lparr>state := Paused\<rparr>)"
  using frozen_outside_play [of "demo_game\<lparr>state := Paused\<rparr>" idle_input]
    frozen_outside_play [of "demo_game\<lparr>state := Gameover\<rparr>" idle_input]
    frozen_outside_play [of demo_game "idle_input\<lparr>events := [KEYDOWN K_p]\<rparr>"]
  by (simp add: idle_input_def demo_game_def)

subsection \<open>Mitosis\<close>

lemma Enemy_init_fields:
  "kind (fst (Enemy_init p rad hp k rg)) = k" "e_pos (fst (Enemy_init p rad hp k rg)) = p"
  "e_r (fst (Enemy_init p rad hp k rg)) = rad" "e_hp (fst (Enemy_init p rad hp k rg)) = hp"
  "rep_cd (fst (Enemy_init p rad hp k rg)) = 0"
  by (simp_all add: Enemy_init_def Let_def split: prod.splits)

lemma Virus_init_fields:
  "kind (fst (Virus_init p t rg)) = Virus t" "e_pos (fst (Virus_init p t rg)) = p"
  "rep_cd (fst (Virus_init p t rg)) = 0"
  "e_r (fst (Virus_init p t rg)) =
     (if t = 2 then VIRUS_BASE_R else if t = 1 then VIRUS_BASE_R - 6 else VIRUS_BASE_R - 10)"
  "e_hp (fst (Virus_init p t rg)) = (if t = 2 then 3 else if t = 1 then 2 else 1)"
  using Enemy_init_fields
  by (simp_all add: Virus_init_def Let_def split_beta)

lemma Bug_init_fields:
  "kind (fst (Bug_init p rg)) = Bug" "e_pos (fst (Bug_init p rg)) = p"
  "rep_cd (fst (Bug_init p rg)) = 0" "e_r (fst (Bug_init p rg)) = BUG_R"
  using Enemy_init_fields
  by (simp_all add: Bug_init_def Let_def split_beta)

lemma Worm_init_fields:
  "same_type (kind (fst (Worm_init p rg))) (Worm x)" "e_pos (fst (Worm_init p rg)) = p"
  "rep_cd (fst (Worm_init p rg)) = 0"
  using Enemy_init_fields
  by (simp_all add: Worm_init_def Let_def split_beta)

lemma mitosis_child_fields:
  "same_type (kind (fst (mitosis_child a p rg))) (kind a)" "e_pos (fst (mitosis_child a p rg)) = p"
  by (cases "kind a"; simp add: mitosis_child_def Virus_init_fields Bug_init_fields Worm_init_fields)+

lemma mitosis_child_Virus:
  "kind a = Virus t \<Longrightarrow> kind (fst (mitosis_child a p rg)) = Virus t"
  "kind a = Virus t \<Longrightarrow> e_r (fst (mitosis_child a p rg)) =
     (if t = 2 then VIRUS_BASE_R else if t = 1 then VIRUS_BASE_R - 6 else VIRUS_BASE_R - 10)"
  by (simp_all add: mitosis_child_def Virus_init_fields)

lemma mitosis_pair_spawn:
  assumes "same_type (kind (enemies g ! i)) (kind (enemies g ! j))"
    and "rep_cd (enemies g ! i) \<le> 0" and "rep_cd (enemies g ! j) \<le> 0"
    and "distance_to (e_pos (enemies g ! i)) (e_pos (enemies g ! j))
           \<le> of_int (e_r (enemies g ! i) + e_r (enemies g ! j))"
    and "length (enemies g) + length to_add < MAX_ENEMIES_ON_FIELD"
  shows "mitosis_pair i j (g, to_add) =
     (g\<lparr>enemies := ((enemies g)[i := (enemies g ! i)\<lparr>rep_cd := 75 / 100\<rparr>])
                      [j := (((enemies g)[i := (enemies g ! i)\<lparr>rep_cd := 75 / 100\<rparr>]) ! j)\<lparr>rep_cd := 75 / 100\<rparr>],
        rng := spark 10 (snd (mitosis_child (enemies g ! i)
                 (vadd (vscale (vadd (e_pos (enemies g ! i)) (e_pos (enemies g ! j))) (1 / 2))
                       (12 * rng g 0 - 6, 12 * rng g 1 - 6)) (skip 2 (rng g))))\<rparr>,
      to_add @ [(fst (mitosis_child (enemies g ! i)
                 (vadd (vscale (vadd (e_pos (enemies g ! i)) (e_pos (enemies g ! j))) (1 / 2))
                       (12 * rng g 0 - 6, 12 * rng g 1 - 6)) (skip 2 (rng g))))\<lparr>rep_cd := 75 / 100\<rparr>])"
  using assms
  by (simp add: mitosis_pair_def Let_def split_beta uniform_def py_random_def numeral_2_eq_2)

lemma mitosis_two:
  assumes "enemies g = [a, b]" and "same_type (kind a) (kind b)"
    and "rep_cd a \<le> 0" and "rep_cd b \<le> 0"
    and "distance_to (e_pos a) (e_pos b) \<le> of_int (e_r a + e_r b)"
  shows "enemies (handle_enemy_mitosis g) =
           [a\<lparr>rep_cd := 75 / 100\<rparr>, b\<lparr>rep_cd := 75 / 100\<rparr>,
            (fst (mitosis_child a (vadd (vscale (vadd (e_pos a) (e_pos b)) (1 / 2))
                                      (12 * rng g 0 - 6, 12 * rng g 1 - 6))
                   (skip 2 (rng g))))\<lparr>rep_cd := 75 / 100\<rparr>]"
proof -
  have "mitosis_loops g = mitosis_pair 0 1 (g, [])"
    using assms(1) by (simp add: mitosis_loops_def)
  then show ?thesis
    using assms mitosis_pair_spawn [of g 0 1 "[]"]
    by (simp add: handle_enemy_mitosis_def MAX_ENEMIES_ON_FIELD_def)
qed

text \<open>
  Claim C6. On a field of exactly two enemies of the same concrete type, both with mitosis
  cooldown zero and in contact (distance at most the sum of the radii), one run of the
  mitosis pass leaves three enemies: the two parents, now with cooldown 0.75, and one
  child of the same type with cooldown 0.75. The child stands at the midpoint of the
  parents plus a jitter drawn by \<open>uniform(-6, 6)\<close> in each coordinate, so within 6 of the
  midpoint in each coordinate for draws in the unit interval.
\<close>

theorem mitosis_two_same_type:
  assumes "enemies g = [a, b]" and "same_type (kind a) (kind b)"
    and "rep_cd a = 0" and "rep_cd b = 0"
    and "distance_to (e_pos a) (e_pos b) \<le> of_int (e_r a + e_r b)"
  shows "length (enemies (handle_enemy_mitosis g)) = 3
    \<and> enemies (handle_enemy_mitosis g) ! 0 = a\<lparr>rep_cd := 75 / 100\<rparr>
    \<and> enemies (handle_enemy_mitosis g) ! 1 = b\<lparr>rep_cd := 75 / 100\<rparr>
    \<and> same_type (kind (enemies (handle_enemy_mitosis g) ! 2)) (kind a)
    \<and> rep_cd (enemies (handle_enemy_mitosis g) ! 2) = 75 / 100
    \<and> e_pos (enemies (handle_enemy_mitosis g) ! 2) =
        vadd (vscale (vadd (e_pos a) (e_pos b)) (1 / 2)) (12 * rng g 0 - 6, 12 * rng g 1 - 6)
    \<and> (0 \<le> rng g 0 \<and> rng g 0 \<le> 1 \<and> 0 \<le> rng g 1 \<and> rng g 1 \<le> 1 \<longrightarrow>
         \<bar>fst (e_pos (enemies (handle_enemy_mitosis g) ! 2)) - (fst (e_pos a) + fst (e_pos b)) / 2\<bar> \<le> 6
       \<and> \<bar>snd (e_pos (enemies (handle_enemy_mitosis g) ! 2)) - (snd (e_pos a) + snd (e_pos b)) / 2\<bar> \<le> 6)"
  using assms mitosis_two [of g a b]
  by (simp add: mitosis_child_fields vadd_def vscale_def abs_le_iff)

theorem mitosis_two_same_type_witness:
  "length (enemies (handle_enemy_mitosis (demo_game\<lparr>enemies := [demo_bug, demo_bug]\<rparr>))) = 3
   \<and> kind (enemies (handle_enemy_mitosis (demo_game\<lparr>enemies := [demo_bug, demo_bug]\<rparr>)) ! 2) = Bug
   \<and> rep_cd (enemies (handle_enemy_mitosis (demo_game\<lparr>enemies := [demo_bug, demo_bug]\<rparr>)) ! 1) = 75 / 100
   \<and> e_pos (enemies (handle_enemy_mitosis (demo_game\<lparr>enemies := [demo_bug, demo_bug]\<rparr>)) ! 2) = CENTER"
proof -
  have k: "kind demo_bug = Bug" and r: "rep_cd demo_bug = 0" and p: "e_pos demo_bug = CENTER"
    and rr: "e_r demo_bug = 14"
    by (simp_all add: demo_bug_def Bug_init_fields BUG_R_def)
  have g: "rng demo_game = (\<lambda>n. 1 / 2)"
    by (simp add: demo_game_def)
  show ?thesis
    using mitosis_two_same_type [of "demo_game\<lparr>enemies := [demo_bug, demo_bug]\<rparr>" demo_bug demo_bug]
      k r p rr g
    by (cases "kind (enemies (handle_enemy_mitosis (demo_game\<lparr>enemies := [demo_bug, demo_bug]\<rparr>)) ! 2)")
       (simp_all add: vadd_def vscale_def CENTER_def)
qed

text \<open>
  Claim C9. Two Viruses count as the same type whatever their tiers. When the pass
  examines a pair \<open>(i, j)\<close> of Viruses off cooldown and in contact below the cap, it
  appends one child Virus whose tier (and so radius) is that of the enemy at the lower
  index \<open>i\<close>; the tier of \<open>j\<close> plays no part. On a field of just these two, the pass ends
  with three enemies, the third a Virus of the tier of the first.
\<close>

theorem mitosis_virus_tier:
  assumes "kind (enemies g ! i) = Virus ti" and "kind (enemies g ! j) = Virus tj"
    and "rep_cd (enemies g ! i) \<le> 0" and "rep_cd (enemies g ! j) \<le> 0"
    and "distance_to (e_pos (enemies g ! i)) (e_pos (enemies g ! j))
           \<le> of_int (e_r (enemies g ! i) + e_r (enemies g ! j))"
    and "length (enemies g) + length to_add < MAX_ENEMIES_ON_FIELD"
  shows "length (snd (mitosis_pair i j (g, to_add))) = length to_add + 1
    \<and> take (length to_add) (snd (mitosis_pair i j (g, to_add))) = to_add
    \<and> kind (last (snd (mitosis_pair i j (g, to_add)))) = Virus ti
    \<and> e_r (last (snd (mitosis_pair i j (g, to_add)))) =
        (if ti = 2 then VIRUS_BASE_R else if ti = 1 then VIRUS_BASE_R - 6 else VIRUS_BASE_R - 10)
    \<and> (length (enemies g) = 2 \<and> i = 0 \<and> j = 1 \<longrightarrow>
         length (enemies (handle_enemy_mitosis g)) = 3
         \<and> kind (enemies (handle_enemy_mitosis g) ! 2) = Virus ti)"
proof -
  have st: "same_type (kind (enemies g ! i)) (kind (enemies g ! j))"
    using assms(1,2) by simp
  have a: "length (snd (mitosis_pair i j (g, to_add))) = length to_add + 1
    \<and> take (length to_add) (snd (mitosis_pair i j (g, to_add))) = to_add
    \<and> kind (last (snd (mitosis_pair i j (g, to_add)))) = Virus ti
    \<and> e_r (last (snd (mitosis_pair i j (g, to_add)))) =
        (if ti = 2 then VIRUS_BASE_R else if ti = 1 then VIRUS_BASE_R - 6 else VIRUS_BASE_R - 10)"
    using mitosis_pair_spawn [OF st assms(3-6)] assms(1)
    by (simp add: mitosis_child_Virus)
  have b: "length (enemies (handle_enemy_mitosis g)) = 3
         \<and> kind (enemies (handle_enemy_mitosis g) ! 2) = Virus ti"
    if h: "length (enemies g) = 2" "i = 0" "j = 1"
  proof -
    obtain x y where xy: "enemies g = [x, y]"
      using h(1) by (cases "enemies g"; simp; cases "tl (enemies g)"; simp)
    show ?thesis
      using mitosis_two [OF xy] st assms(1,3,4,5) h xy
      by (simp add: mitosis_child_Virus)
  qed
  show ?thesis using a b by blast
qed

theorem mitosis_virus_tier_witness:
  "kind (enemies (handle_enemy_mitosis (demo_game\<lparr>enemies := [demo_virus 2, demo_virus 0]\<rparr>)) ! 2) = Virus 2
   \<and> e_r (last (snd (mitosis_pair 0 1 (demo_game\<lparr>enemies := [demo_virus 2, demo_virus 0]\<rparr>, [])))) = 22"
proof -
  have f: "kind (demo_virus 2) = Virus 2" "kind (demo_virus 0) = Virus 0"
    "rep_cd (demo_virus 2) = 0" "rep_cd (demo_virus 0) = 0"
    "e_pos (demo_virus 2) = CENTER" "e_pos (demo_virus 0) = CENTER"
    "e_r (demo_virus 2) = 22" "e_r (demo_virus 0) = 12"
    by (simp_all add: demo_virus_def Virus_init_fields VIRUS_BASE_R_def)
  show ?thesis
    using mitosis_virus_tier [of "demo_game\<lparr>enemies := [demo_virus 2, demo_virus 0]\<rparr>" 0 2 1 0 "[]"] f
    by (simp add: MAX_ENEMIES_ON_FIELD_def VIRUS_BASE_R_def)
qed

subsection \<open>The cancellation pass\<close>

lemma cancel_pair_surges [simp]: "surges (snd (cancel_pair i j st)) = surges (snd st)"
  by (simp add: cancel_pair_def Let_def)

lemma cancel_pair_mono: "fst st \<subseteq> fst (cancel_pair i j st)"
  by (auto simp: cancel_pair_def Let_def)

lemma cancel_pair_no_oc:
  assumes "\<forall>k\<in>fst st. owner (surges (snd st) ! k) \<noteq> OwnOc"
  shows "\<forall>k\<in>fst (cancel_pair i j st). owner (surges (snd st) ! k) \<noteq> OwnOc"
  using assms
  by (auto simp: cancel_pair_def Let_def clash_def is_friend_def is_foe_def split: if_splits)

lemma cancel_pair_resolved:
  assumes "j \<notin> fst st" and "clash (surges (snd st) ! i) (surges (snd st) ! j)"
  shows "(i \<in> fst (cancel_pair i j st) \<or> j \<in> fst (cancel_pair i j st))
    \<and> (owner (surges (snd st) ! i) \<noteq> OwnOc \<and> owner (surges (snd st) ! j) \<noteq> OwnOc \<longrightarrow>
         i \<in> fst (cancel_pair i j st) \<and> j \<in> fst (cancel_pair i j st))"
  using assms by (simp add: cancel_pair_def Let_def)

lemma cancel_inner_surges [simp]:
  "surges (snd (fold (cancel_pair i) js st)) = surges (snd st)"
  by (induction js arbitrary: st) simp_all

lemma cancel_inner_mono: "fst st \<subseteq> fst (fold (cancel_pair i) js st)"
proof (induction js arbitrary: st)
  case Nil
  then show ?case by simp
next
  case (Cons x xs)
  have "fst st \<subseteq> fst (cancel_pair i x st)" by (rule cancel_pair_mono)
  also have "\<dots> \<subseteq> fst (fold (cancel_pair i) xs (cancel_pair i x st))" by (rule Cons.IH)
  finally show ?case by simp
qed

lemma cancel_inner_no_oc:
  assumes "\<forall>k\<in>fst st. owner (surges (snd st) ! k) \<noteq> OwnOc"
  shows "\<forall>k\<in>fst (fold (cancel_pair i) js st). owner (surges (snd st) ! k) \<noteq> OwnOc"
  using assms
proof (induction js arbitrary: st)
  case Nil
  then show ?case by simp
next
  case (Cons x xs)
  have "\<forall>k\<in>fst (cancel_pair i x st). owner (surges (snd (cancel_pair i x st)) ! k) \<noteq> OwnOc"
    using cancel_pair_no_oc [OF Cons.prems] by simp
  from Cons.IH [OF this] show ?case by simp
qed

lemma cancel_inner_one:
  assumes "j \<in> set js" and "clash (surges (snd st) ! i) (surges (snd st) ! j)"
  shows "i \<in> fst (fold (cancel_pair i) js st) \<or> j \<in> fst (fold (cancel_pair i) js st)"
  using assms
proof (induction js arbitrary: st)
  case Nil
  then show ?case by simp
next
  case (Cons x xs)
  show ?case
  proof (cases "x = j")
    case True
    have "i \<in> fst (cancel_pair i j st) \<or> j \<in> fst (cancel_pair i j st)"
    proof (cases "j \<in> fst st")
      case True
      then show ?thesis using cancel_pair_mono [of st i j] by blast
    next
      case False
      then show ?thesis using cancel_pair_resolved [OF False Cons.prems(2)] by blast
    qed
    then show ?thesis
      using cancel_inner_mono [of "cancel_pair i j st" i xs] True by auto
  next
    case False
    then have "j \<in> set xs" using Cons.prems(1) by simp
    moreover have "clash (surges (snd (cancel_pair i x st)) ! i) (surges (snd (cancel_pair i x st)) ! j)"
      using Cons.prems(2) by simp
    ultimately show ?thesis using Cons.IH [of "cancel_pair i x st"] by simp
  qed
qed

lemma cancel_row_surges [simp]: "surges (snd (cancel_row n i st)) = surges (snd st)"
  by (simp add: cancel_row_def)

lemma cancel_row_mono: "fst st \<subseteq> fst (cancel_row n i st)"
  using cancel_inner_mono by (simp add: cancel_row_def)

lemma cancel_row_no_oc:
  assumes "\<forall>k\<in>fst st. owner (surges (snd st) ! k) \<noteq> OwnOc"
  shows "\<forall>k\<in>fst (cancel_row n i st). owner (surges (snd st) ! k) \<noteq> OwnOc"
  using assms cancel_inner_no_oc by (simp add: cancel_row_def)

lemma cancel_row_one:
  assumes "i < j" and "j < n" and "clash (surges (snd st) ! i) (surges (snd st) ! j)"
  shows "i \<in> fst (cancel_row n i st) \<or> j \<in> fst (cancel_row n i st)"
proof (cases "i \<in> fst st")
  case True
  then show ?thesis by (simp add: cancel_row_def)
next
  case False
  have "j \<in> set [i + 1 ..< n]" using assms(1,2) by simp
  from cancel_inner_one [OF this assms(3)] False show ?thesis by (simp add: cancel_row_def)
qed

lemma cancel_outer_surges [simp]:
  "surges (snd (fold (cancel_row n) ks st)) = surges (snd st)"
  by (induction ks arbitrary: st) simp_all

lemma cancel_outer_mono: "fst st \<subseteq> fst (fold (cancel_row n) ks st)"
proof (induction ks arbitrary: st)
  case Nil
  then show ?case by simp
next
  case (Cons x xs)
  have "fst st \<subseteq> fst (cancel_row n x st)" by (rule cancel_row_mono)
  also have "\<dots> \<subseteq> fst (fold (cancel_row n) xs (cancel_row n x st))" by (rule Cons.IH)
  finally show ?case by simp
qed

lemma cancel_outer_no_oc:
  assumes "\<forall>k\<in>fst st. owner (surges (snd st) ! k) \<noteq> OwnOc"
  shows "\<forall>k\<in>fst (fold (cancel_row n) ks st). owner (surges (snd st) ! k) \<noteq> OwnOc"
  using assms
proof (induction ks arbitrary: st)
  case Nil
  then show ?case by simp
next
  case (Cons x xs)
  have "\<forall>k\<in>fst (cancel_row n x st). owner (surges (snd (cancel_row n x st)) ! k) \<noteq> OwnOc"
    using cancel_row_no_oc [OF Cons.prems] by simp
  from Cons.IH [OF this] show ?case by simp
qed

lemma upt_split3: "i < n \<Longrightarrow> [0 ..< n] = [0 ..< i] @ i # [i + 1 ..< n]"
  by (metis Suc_eq_plus1 upt_conv_Cons upt_add_eq_append le_add1 le_add_diff_inverse less_imp_le_nat plus_nat.add_0)

lemma upt_split_mid: "i < j \<Longrightarrow> j < n \<Longrightarrow> [i + 1 ..< n] = [i + 1 ..< j] @ j # [j + 1 ..< n]"
  by (metis Suc_eq_plus1 Suc_leI le_add_diff_inverse less_imp_le_nat upt_add_eq_append upt_conv_Cons)

lemma cancel_loops_split:
  assumes "i < length (surges g)"
  shows "cancel_loops g =
           fold (cancel_row (length (surges g))) [i + 1 ..< length (surges g)]
             (cancel_row (length (surges g)) i
                (fold (cancel_row (length (surges g))) [0 ..< i] ({}, g)))"
  using upt_split3 [OF assms] by (simp add: cancel_loops_def)

lemma drop_dead_empty: "drop_dead {} xs = xs"
  by (simp add: drop_dead_def map_snd_enumerate)

lemma handle_surge_cancels_surges:
  "surges (handle_surge_cancels g) = drop_dead (fst (cancel_loops g)) (surges g)"
proof -
  have "surges (snd (cancel_loops g)) = surges g"
    by (simp add: cancel_loops_def)
  then show ?thesis
    by (simp add: handle_surge_cancels_def split_beta drop_dead_empty)
qed

text \<open>
  Claim C3, as the code has it. Let \<open>i < j\<close> index a friendly and a hostile surge in
  range of each other when the pass runs, and let \<open>dead\<close> be the set of indices the pass
  ends with; the surges left are those whose index is not in \<open>dead\<close>.
  \<^item> At least one of the two is removed.
  \<^item> An overclock surge is never removed, so of a pair with an overclock surge exactly
    the hostile one is removed.
  \<^item> A player/hostile pair loses both surges when neither of the two is marked dead at the
    moment the loops reach the pair, that is after the outer iterations before \<open>i\<close> and
    the inner iterations of \<open>i\<close> before \<open>j\<close>.
\<close>

theorem cancel_pass_removes:
  assumes "i < j" and "j < length (surges g)"
    and "clash (surges g ! i) (surges g ! j)"
  shows "(i \<in> fst (cancel_loops g) \<or> j \<in> fst (cancel_loops g))
    \<and> (owner (surges g ! i) = OwnOc \<longrightarrow> i \<notin> fst (cancel_loops g) \<and> j \<in> fst (cancel_loops g))
    \<and> (owner (surges g ! j) = OwnOc \<longrightarrow> j \<notin> fst (cancel_loops g) \<and> i \<in> fst (cancel_loops g))
    \<and> (owner (surges g ! i) \<noteq> OwnOc \<and> owner (surges g ! j) \<noteq> OwnOc
        \<and> i \<notin> fst (fold (cancel_pair i) [i + 1 ..< j]
                      (fold (cancel_row (length (surges g))) [0 ..< i] ({}, g)))
        \<and> j \<notin> fst (fold (cancel_pair i) [i + 1 ..< j]
                      (fold (cancel_row (length (surges g))) [0 ..< i] ({}, g)))
        \<longrightarrow> i \<in> fst (cancel_loops g) \<and> j \<in> fst (cancel_loops g))
    \<and> surges (handle_surge_cancels g) = drop_dead (fst (cancel_loops g)) (surges g)"
proof -
  define n where "n = length (surges g)"
  define sti where "sti = fold (cancel_row n) [0 ..< i] ({}, g)"
  define stij where "stij = fold (cancel_pair i) [i + 1 ..< j] sti"
  have i_n: "i < n" using assms(1,2) by (simp add: n_def)
  have loops: "cancel_loops g = fold (cancel_row n) [i + 1 ..< n] (cancel_row n i sti)"
    using cancel_loops_split [of i g] i_n by (simp add: n_def sti_def)
  have s_sti: "surges (snd sti) = surges g" by (simp add: sti_def)
  have row_sub: "fst (cancel_row n i sti) \<subseteq> fst (cancel_loops g)"
    unfolding loops by (rule cancel_outer_mono)
  have one: "i \<in> fst (cancel_loops g) \<or> j \<in> fst (cancel_loops g)"
    using cancel_row_one [of i j n sti] assms s_sti row_sub by (auto simp: n_def)
  have no_oc: "\<forall>k\<in>fst (cancel_loops g). owner (surges g ! k) \<noteq> OwnOc"
    using cancel_outer_no_oc [of "({}, g)" "length (surges g)" "[0 ..< length (surges g)]"]
    by (simp add: cancel_loops_def)
  have both: "i \<in> fst (cancel_loops g) \<and> j \<in> fst (cancel_loops g)"
    if h: "owner (surges g ! i) \<noteq> OwnOc" "owner (surges g ! j) \<noteq> OwnOc"
      "i \<notin> fst stij" "j \<notin> fst stij"
  proof -
    have "i \<notin> fst sti"
      using h(3) cancel_inner_mono [of sti i "[i + 1 ..< j]"] by (auto simp: stij_def)
    then have "cancel_row n i sti = fold (cancel_pair i) [j + 1 ..< n] (cancel_pair i j stij)"
      using upt_split_mid [of i j n] assms(1,2)
      by (simp add: cancel_row_def stij_def n_def)
    then have sub: "fst (cancel_pair i j stij) \<subseteq> fst (cancel_row n i sti)"
      using cancel_inner_mono [of "cancel_pair i j stij" i "[j + 1 ..< n]"] by simp
    have s_stij: "surges (snd stij) = surges g" by (simp add: stij_def s_sti)
    have "i \<in> fst (cancel_pair i j stij) \<and> j \<in> fst (cancel_pair i j stij)"
      using cancel_pair_resolved [of j stij i] h assms(3) s_stij by simp
    then show ?thesis using sub row_sub by blast
  qed
  show ?thesis
    using one no_oc both handle_surge_cancels_surges [of g]
    unfolding sti_def stij_def n_def by blast
qed

lemma demo_surge_fields:
  "owner (demo_surge ow) = ow" "s_pos (demo_surge ow) = (480, 288)"
  "s_r (demo_surge ow) = (if ow = OwnOc then 10 else 5)"
  by (cases ow; simp add: demo_surge_def Surge_default_def Surge_def SURGE_R_def OC_SURGE_R_def)+

lemma demo_clash:
  "clash (demo_surge a) (demo_surge b) \<longleftrightarrow> (is_friend a \<and> is_foe b) \<or> (is_friend b \<and> is_foe a)"
  by (simp add: clash_def demo_surge_fields)

lemma three_dead_ppe:
  "fst (cancel_loops (three_surges OwnPlayer OwnEnemy OwnPlayer)) = {0, 1}"
  by (simp add: cancel_loops_def cancel_row_def cancel_pair_def three_surges_def Let_def
      demo_clash demo_surge_fields is_friend_def is_foe_def)

text \<open>
  Claim C3 as stated fails: with a player surge, an enemy surge and a second player surge
  at the same place, the first pairing removes surges 0 and 1; the pair of surge 1 (enemy)
  and surge 2 (player) is in range and has no overclock surge, but surge 2 is left.
\<close>

theorem cancel_pair_survivor_counterexample:
  "clash (surges (three_surges OwnPlayer OwnEnemy OwnPlayer) ! 1)
         (surges (three_surges OwnPlayer OwnEnemy OwnPlayer) ! 2)
   \<and> owner (surges (three_surges OwnPlayer OwnEnemy OwnPlayer) ! 1) = OwnEnemy
   \<and> owner (surges (three_surges OwnPlayer OwnEnemy OwnPlayer) ! 2) = OwnPlayer
   \<and> 2 \<notin> fst (cancel_loops (three_surges OwnPlayer OwnEnemy OwnPlayer))
   \<and> surges (handle_surge_cancels (three_surges OwnPlayer OwnEnemy OwnPlayer)) = [demo_surge OwnPlayer]"
  by (simp add: three_dead_ppe handle_surge_cancels_surges drop_dead_def)
     (simp add: three_surges_def demo_clash demo_surge_fields is_friend_def is_foe_def)

text \<open>
  Claim C7, evaluated on a player surge followed by two enemy surges, all three at the same
  place. The pairing \<open>(0, 1)\<close> marks surge 0 dead and awards 8; the inner loop of surge 0
  goes on all the same, resolves \<open>(0, 2)\<close> and awards 8 again: the pass ends with a meter
  of 16 and no surge left.
\<close>

theorem dead_surge_cancels_again:
  "fst (cancel_pair 0 1 ({}, three_surges OwnPlayer OwnEnemy OwnEnemy)) = {0, 1}
   \<and> oc_meter (hero (snd (cancel_pair 0 1 ({}, three_surges OwnPlayer OwnEnemy OwnEnemy)))) = 8
   \<and> fst (cancel_pair 0 2 (cancel_pair 0 1 ({}, three_surges OwnPlayer OwnEnemy OwnEnemy))) = {0, 1, 2}
   \<and> oc_meter (hero (snd (cancel_pair 0 2
        (cancel_pair 0 1 ({}, three_surges OwnPlayer OwnEnemy OwnEnemy))))) = 16
   \<and> oc_meter (hero (handle_surge_cancels (three_surges OwnPlayer OwnEnemy OwnEnemy))) = 16
   \<and> surges (handle_surge_cancels (three_surges OwnPlayer OwnEnemy OwnEnemy)) = []"
  apply (simp add: handle_surge_cancels_def cancel_loops_def cancel_row_def cancel_pair_def three_surges_def Let_def
      demo_clash demo_surge_fields is_friend_def is_foe_def add_oc_def clamp_def demo_game_def Hero_def
      OC_FILL_PER_CANCEL_def OC_MAX_def drop_dead_def split_beta)
  apply auto
  done

theorem cancel_pass_removes_witness:
  "0 \<in> fst (cancel_loops (three_surges OwnPlayer OwnEnemy OwnPlayer))
   \<and> 1 \<in> fst (cancel_loops (three_surges OwnPlayer OwnEnemy OwnPlayer))
   \<and> 0 \<notin> fst (cancel_loops (three_surges OwnOc OwnEnemy OwnPlayer))
   \<and> 1 \<in> fst (cancel_loops (three_surges OwnOc OwnEnemy OwnPlayer))"
  using cancel_pass_removes [of 0 1 "three_surges OwnPlayer OwnEnemy OwnPlayer"]
    cancel_pass_removes [of 0 1 "three_surges OwnOc OwnEnemy OwnPlayer"]
  by (simp add: three_surges_def demo_clash demo_surge_fields is_friend_def is_foe_def)

subsection \<open>What each phase of the update leaves alone\<close>

lemma add_shake_frame [simp]:
  "enemies (add_shake a g) = enemies g" "surges (add_shake a g) = surges g"
  "state (add_shake a g) = state g" "hero (add_shake a g) = hero g"
  "glitches (add_shake a g) = glitches g" "rng (add_shake a g) = rng g"
  by (simp_all add: add_shake_def)

lemma hero_phase_frame [simp]:
  "enemies (hero_phase inp g) = enemies g" "surges (hero_phase inp g) = surges g"
  "state (hero_phase inp g) = state g" "h_hp (hero (hero_phase inp g)) = h_hp (hero g)"
  by (simp_all add: hero_phase_def Hero_update_hp)

lemma blast_trigger_frame [simp]:
  "enemies (blast_trigger inp g) = enemies g" "state (blast_trigger inp g) = state g"
  "h_hp (hero (blast_trigger inp g)) = h_hp (hero g)"
  by (simp_all add: blast_trigger_def fire_overclock_blast_def reset_overclock_def)


lemma blast_shake_frame [simp]:
  "enemies (blast_shake inp g) = enemies g" "surges (blast_shake inp g) = surges g"
  "state (blast_shake inp g) = state g" "hero (blast_shake inp g) = hero g"
  by (simp_all add: blast_shake_def)

lemma fire_phase_frame [simp]:
  "enemies (fire_phase inp g) = enemies g" "state (fire_phase inp g) = state g"
  "h_hp (hero (fire_phase inp g)) = h_hp (hero g)"
  by (simp_all add: fire_phase_def shoot_def Let_def)



lemma natural_phase_frame [simp]:
  "enemies (natural_phase inp g) = enemies g" "state (natural_phase inp g) = state g"
  "hero (natural_phase inp g) = hero g"
  by (simp_all add: natural_phase_def Let_def split_beta)


lemma enemy_update_frame [simp]:
  "enemies (snd (snd (enemy_update d e g))) = enemies g"
  "surges (snd (snd (enemy_update d e g))) = surges g"
  "state (snd (snd (enemy_update d e g))) = state g"
  "hero (snd (snd (enemy_update d e g))) = hero g"
  by (cases "kind e";
      simp add: enemy_update_def Virus_update_def Bug_update_def Worm_update_def Let_def split_beta
        spawn_glitch_def)+


lemma update_enemies_frame [simp]:
  "length (fst (update_enemies d es g)) = length es"
  "enemies (snd (snd (update_enemies d es g))) = enemies g"
  "surges (snd (snd (update_enemies d es g))) = surges g"
  "state (snd (snd (update_enemies d es g))) = state g"
  "hero (snd (snd (update_enemies d es g))) = hero g"
  by (induction es arbitrary: g; simp add: split_beta Let_def)+


lemma enemies_phase_frame [simp]:
  "length (enemies (enemies_phase inp g)) = length (enemies g)"
  "state (enemies_phase inp g) = state g" "hero (enemies_phase inp g) = hero g"
  by (simp_all add: enemies_phase_def split_beta Let_def)


lemma mitosis_pair_frame [simp]:
  "surges (fst (mitosis_pair i j st)) = surges (fst st)"
  "state (fst (mitosis_pair i j st)) = state (fst st)"
  "hero (fst (mitosis_pair i j st)) = hero (fst st)"
  "length (enemies (fst (mitosis_pair i j st))) = length (enemies (fst st))"
  by (simp_all add: mitosis_pair_def Let_def split_beta)


lemma mitosis_inner_frame [simp]:
  "surges (fst (fold (mitosis_pair i) js st)) = surges (fst st)"
  "state (fst (fold (mitosis_pair i) js st)) = state (fst st)"
  "hero (fst (fold (mitosis_pair i) js st)) = hero (fst st)"
  "length (enemies (fst (fold (mitosis_pair i) js st))) = length (enemies (fst st))"
  by (induction js arbitrary: st; simp)+


lemma mitosis_outer_frame [simp]:
  "surges (fst (fold (\<lambda>i. fold (mitosis_pair i) (f i)) ks st)) = surges (fst st)"
  "state (fst (fold (\<lambda>i. fold (mitosis_pair i) (f i)) ks st)) = state (fst st)"
  "hero (fst (fold (\<lambda>i. fold (mitosis_pair i) (f i)) ks st)) = hero (fst st)"
  "length (enemies (fst (fold (\<lambda>i. fold (mitosis_pair i) (f i)) ks st))) = length (enemies (fst st))"
  by (induction ks arbitrary: st; simp)+


lemma handle_enemy_mitosis_frame [simp]:
  "surges (handle_enemy_mitosis g) = surges g" "state (handle_enemy_mitosis g) = state g"
  "hero (handle_enemy_mitosis g) = hero g"
  by (simp_all add: handle_enemy_mitosis_def mitosis_loops_def Let_def split_beta)


lemma glitches_decay_frame [simp]:
  "enemies (glitches_decay inp g) = enemies g" "surges (glitches_decay inp g) = surges g"
  "state (glitches_decay inp g) = state g" "hero (glitches_decay inp g) = hero g"
  by (simp_all add: glitches_decay_def)

lemma surges_move_frame [simp]:
  "enemies (surges_move inp g) = enemies g" "state (surges_move inp g) = state g"
  "hero (surges_move inp g) = hero g"
  by (simp_all add: surges_move_def)


lemma add_oc_frame [simp]: "h_hp (add_oc v h) = h_hp h" "ifr (add_oc v h) = ifr h"
  by (simp_all add: add_oc_def)

lemma cancel_pair_frame [simp]:
  "enemies (snd (cancel_pair i j st)) = enemies (snd st)"
  "state (snd (cancel_pair i j st)) = state (snd st)"
  "h_hp (hero (snd (cancel_pair i j st))) = h_hp (hero (snd st))"
  "ifr (hero (snd (cancel_pair i j st))) = ifr (hero (snd st))"
  by (simp_all add: cancel_pair_def Let_def)

lemma cancel_inner_frame [simp]:
  "enemies (snd (fold (cancel_pair i) js st)) = enemies (snd st)"
  "state (snd (fold (cancel_pair i) js st)) = state (snd st)"
  "h_hp (hero (snd (fold (cancel_pair i) js st))) = h_hp (hero (snd st))"
  "ifr (hero (snd (fold (cancel_pair i) js st))) = ifr (hero (snd st))"
  by (induction js arbitrary: st; simp)+

lemma cancel_row_frame [simp]:
  "enemies (snd (cancel_row n i st)) = enemies (snd st)"
  "state (snd (cancel_row n i st)) = state (snd st)"
  "h_hp (hero (snd (cancel_row n i st))) = h_hp (hero (snd st))"
  "ifr (hero (snd (cancel_row n i st))) = ifr (hero (snd st))"
  by (simp_all add: cancel_row_def)

lemma cancel_outer_frame [simp]:
  "enemies (snd (fold (cancel_row n) ks st)) = enemies (snd st)"
  "state (snd (fold (cancel_row n) ks st)) = state (snd st)"
  "h_hp (hero (snd (fold (cancel_row n) ks st))) = h_hp (hero (snd st))"
  "ifr (hero (snd (fold (cancel_row n) ks st))) = ifr (hero (snd st))"
  by (induction ks arbitrary: st; simp)+

lemma handle_surge_cancels_frame [simp]:
  "enemies (handle_surge_cancels g) = enemies g" "state (handle_surge_cancels g) = state g"
  "h_hp (hero (handle_surge_cancels g)) = h_hp (hero g)"
  "ifr (hero (handle_surge_cancels g)) = ifr (hero g)"
  by (simp_all add: handle_surge_cancels_def cancel_loops_def split_beta)







lemma hit_one_frame [simp]:
  "surges (snd (hit_one s k g)) = surges g" "state (snd (hit_one s k g)) = state g"
  "h_hp (hero (snd (hit_one s k g))) = h_hp (hero g)"
  "ifr (hero (snd (hit_one s k g))) = ifr (hero g)"
  by (simp_all add: hit_one_def Let_def split_beta split: ekind.splits)


lemma hit_enemies_frame [simp]:
  "surges (snd (hit_enemies s m k g)) = surges g" "state (snd (hit_enemies s m k g)) = state g"
  "h_hp (hero (snd (hit_enemies s m k g))) = h_hp (hero g)"
  "ifr (hero (snd (hit_enemies s m k g))) = ifr (hero g)"
  by (induction m arbitrary: k g; simp add: split_beta Let_def)+


lemma hurt_once:
  assumes "h_hp h = hp0 \<or> (h_hp h = hp0 - 1 \<and> ifr h > 0)"
  shows "h_hp (snd (hurt h)) = hp0 \<or> (h_hp (snd (hurt h)) = hp0 - 1 \<and> ifr (snd (hurt h)) > 0)"
  using assms by (auto simp: hurt_def HERO_IFRAMES_def)

lemma hit_hero_frame [simp]:
  "enemies (snd (hit_hero s k g)) = enemies g" "state (snd (hit_hero s k g)) = state g"
  by (simp_all add: hit_hero_def Let_def split_beta)

lemma hit_hero_hero: "hero (snd (hit_hero s k g)) = hero g \<or> hero (snd (hit_hero s k g)) = snd (hurt (hero g))"
  by (simp add: hit_hero_def Let_def split_beta)

lemma hit_hero_once:
  assumes "h_hp (hero g) = hp0 \<or> (h_hp (hero g) = hp0 - 1 \<and> ifr (hero g) > 0)"
  shows "h_hp (hero (snd (hit_hero s k g))) = hp0
     \<or> (h_hp (hero (snd (hit_hero s k g))) = hp0 - 1 \<and> ifr (hero (snd (hit_hero s k g))) > 0)"
  using hit_hero_hero [of s k g] hurt_once [OF assms] assms by auto

lemma hit_surges_state [simp]: "state (hit_surges m k g) = state g"
  by (induction m arbitrary: k g; simp add: split_beta Let_def)


lemma hit_surges_once:
  assumes "h_hp (hero g) = hp0 \<or> (h_hp (hero g) = hp0 - 1 \<and> ifr (hero g) > 0)"
  shows "h_hp (hero (hit_surges m k g)) = hp0
     \<or> (h_hp (hero (hit_surges m k g)) = hp0 - 1 \<and> ifr (hero (hit_surges m k g)) > 0)"
  using assms
proof (induction m arbitrary: k g)
  case 0
  then show ?case by simp
next
  case (Suc m)
  let ?h = "hit_enemies (surges g ! k) (length (enemies g)) 0 g"
  have a: "h_hp (hero (hit_surges m k' (snd ?h\<lparr>surges := ss\<rparr>))) = hp0
     \<or> (h_hp (hero (hit_surges m k' (snd ?h\<lparr>surges := ss\<rparr>))) = hp0 - 1
         \<and> ifr (hero (hit_surges m k' (snd ?h\<lparr>surges := ss\<rparr>))) > 0)" for k' ss
    using Suc.IH [of "snd ?h\<lparr>surges := ss\<rparr>" k'] Suc.prems by simp
  have b: "h_hp (hero (hit_surges m k' (snd ?h))) = hp0
     \<or> (h_hp (hero (hit_surges m k' (snd ?h))) = hp0 - 1
         \<and> ifr (hero (hit_surges m k' (snd ?h))) > 0)" for k'
    using Suc.IH [of "snd ?h" k'] Suc.prems by simp
  have c: "h_hp (hero (hit_surges m k' (snd (hit_hero (surges g ! k) k g)))) = hp0
     \<or> (h_hp (hero (hit_surges m k' (snd (hit_hero (surges g ! k) k g)))) = hp0 - 1
         \<and> ifr (hero (hit_surges m k' (snd (hit_hero (surges g ! k) k g)))) > 0)" for k'
    using Suc.IH [OF hit_hero_once [OF Suc.prems], of k'] .
  show ?case
    using a b c by (simp add: split_beta Let_def)
qed

lemma handle_surge_hits_frame [simp]: "state (handle_surge_hits g) = state g"
  by (simp add: handle_surge_hits_def)

lemma glitch_hit_frame [simp]:
  "enemies (glitch_hit gl g) = enemies g" "state (glitch_hit gl g) = state g"
  by (simp_all add: glitch_hit_def split_beta)

lemma glitch_hit_once:
  assumes "h_hp (hero g) = hp0 \<or> (h_hp (hero g) = hp0 - 1 \<and> ifr (hero g) > 0)"
  shows "h_hp (hero (glitch_hit gl g)) = hp0
     \<or> (h_hp (hero (glitch_hit gl g)) = hp0 - 1 \<and> ifr (hero (glitch_hit gl g)) > 0)"
  using hurt_once [OF assms] assms by (auto simp: glitch_hit_def split_beta)

lemma glitch_fold_frame [simp]:
  "enemies (fold glitch_hit gls g) = enemies g" "state (fold glitch_hit gls g) = state g"
  by (induction gls arbitrary: g; simp)+

lemma glitch_fold_once:
  assumes "h_hp (hero g) = hp0 \<or> (h_hp (hero g) = hp0 - 1 \<and> ifr (hero g) > 0)"
  shows "h_hp (hero (fold glitch_hit gls g)) = hp0
     \<or> (h_hp (hero (fold glitch_hit gls g)) = hp0 - 1 \<and> ifr (hero (fold glitch_hit gls g)) > 0)"
  using assms
proof (induction gls arbitrary: g)
  case Nil
  then show ?case by simp
next
  case (Cons x xs)
  from Cons.IH [OF glitch_hit_once [OF Cons.prems]] show ?case by simp
qed

lemma win_lose_frame [simp]:
  "enemies (win_lose g) = enemies g" "hero (win_lose g) = hero g"
  by (simp_all add: win_lose_def)

lemma shake_decay_frame [simp]:
  "enemies (shake_decay g) = enemies g" "hero (shake_decay g) = hero g"
  "state (shake_decay g) = state g"
  by (simp_all add: shake_decay_def)

subsection \<open>The enemy count and the hero's health over a whole update\<close>



lemma update_rest_hp:
  "h_hp (hero (update_rest inp g)) = h_hp (hero g)
   \<or> (h_hp (hero (update_rest inp g)) = h_hp (hero g) - 1 \<and> ifr (hero (update_rest inp g)) > 0)"
proof -
  define g10 where "g10 = handle_surge_cancels (surges_move inp (glitches_decay inp
    (handle_enemy_mitosis (enemies_phase inp (natural_phase inp (fire_phase inp (blast_shake inp g)))))))"
  have "h_hp (hero g10) = h_hp (hero g)"
    by (simp add: g10_def)
  then have "h_hp (hero g10) = h_hp (hero g) \<or> (h_hp (hero g10) = h_hp (hero g) - 1 \<and> ifr (hero g10) > 0)"
    by simp
  from glitch_fold_once [OF hit_surges_once [OF this]]
  show ?thesis
    by (simp add: update_rest_def Let_def g10_def glitch_hazards_def handle_surge_hits_def)
qed

lemma update_rest_state:
  "state (update_rest inp g) =
     (if h_hp (hero (update_rest inp g)) \<le> 0 then Gameover
      else if enemies (update_rest inp g) = [] then Sectorclear else state g)"
  by (simp add: update_rest_def Let_def win_lose_def alive_def glitch_hazards_def)

lemma update_hp:
  "h_hp (hero (update inp g)) = h_hp (hero g) \<or> h_hp (hero (update inp g)) = h_hp (hero g) - 1"
  using update_rest_hp [of inp "blast_trigger inp (hero_phase inp g)"]
  by (auto simp: update_def)

lemma update_state:
  "state (update inp g) =
     (if state g = Menu \<or> state g = Gameover \<or> state g = Sectorclear then state g
      else if h_hp (hero (update inp g)) \<le> 0 then Gameover
      else if enemies (update inp g) = [] then Sectorclear else state g)"
  using update_rest_state [of inp "blast_trigger inp (hero_phase inp g)"]
  by (simp add: update_def)

lemma update_inv:
  assumes "0 \<le> h_hp (hero g)" and "state g = Play \<or> state g = Paused \<longrightarrow> 0 < h_hp (hero g)"
  shows "0 \<le> h_hp (hero (update inp g))
    \<and> (state (update inp g) = Play \<or> state (update inp g) = Paused \<longrightarrow> 0 < h_hp (hero (update inp g)))"
proof (cases "state g = Menu \<or> state g = Gameover \<or> state g = Sectorclear")
  case True
  then have "update inp g = g" by (auto simp: update_def)
  then show ?thesis using assms by simp
next
  case False
  then have "state g = Play \<or> state g = Paused" by (cases "state g") simp_all
  then have pos: "0 < h_hp (hero g)" using assms(2) by simp
  show ?thesis
    using update_hp [of inp g] update_state [of inp g] pos by (auto split: if_splits)
qed

lemma spawn_n_length [simp]: "length (fst (spawn_n n mk rg)) = n"
  by (induction n arbitrary: rg) (simp_all add: split_beta Let_def)

lemma build_sector_frame:
  "length (enemies (build_sector v b w g)) = nat v + nat b + nat w"
  "surges (build_sector v b w g) = []" "glitches (build_sector v b w g) = []"
  "hero (build_sector v b w g) = Hero CENTER" "state (build_sector v b w g) = state g"
  by (simp_all add: build_sector_def split_beta Let_def)

lemma start_game_frame:
  "hero (start_game g) = Hero CENTER" "state (start_game g) = Play"
  by (simp_all add: start_game_def build_sector_frame split_beta)

lemma next_sector_frame:
  "hero (next_sector g) = Hero CENTER" "state (next_sector g) = Play"
  "surges (next_sector g) = []"
  by (simp_all add: next_sector_def build_sector_frame split_beta Let_def)

lemma handle_event_inv:
  assumes "0 \<le> h_hp (hero g)" and "state g = Play \<or> state g = Paused \<longrightarrow> 0 < h_hp (hero g)"
  shows "0 \<le> h_hp (hero (snd (handle_event e g)))
    \<and> (state (snd (handle_event e g)) = Play \<or> state (snd (handle_event e g)) = Paused
         \<longrightarrow> 0 < h_hp (hero (snd (handle_event e g))))"
  using assms
  by (cases e) (auto simp: Let_def start_game_frame next_sector_frame Hero_def HERO_HP_def)

lemma handle_events_inv:
  assumes "0 \<le> h_hp (hero g)" and "state g = Play \<or> state g = Paused \<longrightarrow> 0 < h_hp (hero g)"
  shows "0 \<le> h_hp (hero (snd (handle_events es g)))
    \<and> (state (snd (handle_events es g)) = Play \<or> state (snd (handle_events es g)) = Paused
         \<longrightarrow> 0 < h_hp (hero (snd (handle_events es g))))"
  using assms
proof (induction es arbitrary: g)
  case Nil
  then show ?case by simp
next
  case (Cons e es)
  obtain ok g' where eq: "handle_event e g = (ok, g')" by (cases "handle_event e g")
  have inv': "0 \<le> h_hp (hero g') \<and> (state g' = Play \<or> state g' = Paused \<longrightarrow> 0 < h_hp (hero g'))"
    using handle_event_inv [OF Cons.prems, of e] eq by simp
  show ?case
  proof (cases ok)
    case True
    then show ?thesis using Cons.IH [of g'] inv' eq by simp
  next
    case False
    then show ?thesis using inv' eq by simp
  qed
qed

lemma advance_frame_inv:
  assumes "0 \<le> h_hp (hero g)" and "state g = Play \<or> state g = Paused \<longrightarrow> 0 < h_hp (hero g)"
  shows "0 \<le> h_hp (hero (advance_frame inp g))
    \<and> (state (advance_frame inp g) = Play \<or> state (advance_frame inp g) = Paused
         \<longrightarrow> 0 < h_hp (hero (advance_frame inp g)))"
  using update_inv [OF assms, of inp] assms by (simp add: advance_frame_def)

lemma run_frame_inv:
  assumes "0 \<le> h_hp (hero g)" and "state g = Play \<or> state g = Paused \<longrightarrow> 0 < h_hp (hero g)"
    and "run_frame inp g = Some g'"
  shows "0 \<le> h_hp (hero g') \<and> (state g' = Play \<or> state g' = Paused \<longrightarrow> 0 < h_hp (hero g'))"
proof -
  obtain ok g1 where eq: "handle_events (events inp) g = (ok, g1)"
    by (cases "handle_events (events inp) g")
  have inv1: "0 \<le> h_hp (hero g1) \<and> (state g1 = Play \<or> state g1 = Paused \<longrightarrow> 0 < h_hp (hero g1))"
    using handle_events_inv [OF assms(1,2), of "events inp"] eq by simp
  have "g' = advance_frame inp g1"
    using assms(3) eq by (cases ok) (simp_all add: run_frame_def)
  then show ?thesis
    using advance_frame_inv [of g1 inp] inv1 by simp
qed

lemma run_inv:
  assumes "0 \<le> h_hp (hero g)" and "state g = Play \<or> state g = Paused \<longrightarrow> 0 < h_hp (hero g)"
  shows "0 \<le> h_hp (hero (run inps g))
    \<and> (state (run inps g) = Play \<or> state (run inps g) = Paused \<longrightarrow> 0 < h_hp (hero (run inps g)))"
  using assms
proof (induction inps arbitrary: g)
  case Nil
  then show ?case by simp
next
  case (Cons inp rest)
  show ?case
  proof (cases "run_frame inp g")
    case None
    then show ?thesis using Cons.prems by simp
  next
    case (Some g')
    have "0 \<le> h_hp (hero g') \<and> (state g' = Play \<or> state g' = Paused \<longrightarrow> 0 < h_hp (hero g'))"
      using run_frame_inv [OF Cons.prems Some] .
    then show ?thesis using Cons.IH [of g'] Some by simp
  qed
qed









text \<open>
  Claim C2. From any game whose hero has non-negative health, and positive health while
  in play or paused (as at the start of the game and of every sector), no sequence of frames
  and no single update makes the health negative: within one update at most one attempt
  to hurt the hero succeeds, and an update that brings the health to 0 ends in gameover.
  While the invulnerability timer is strictly positive \<open>hurt\<close> returns false and leaves
  the hero as it is, so contact with a hostile surge or a glitch does not change the hero;
  once the timer is no longer positive \<open>hurt\<close> succeeds again.
\<close>

theorem hero_health_never_negative:
  assumes "0 \<le> h_hp (hero g)" and "state g = Play \<or> state g = Paused \<longrightarrow> 0 < h_hp (hero g)"
  shows "0 \<le> h_hp (hero (run inps g))
    \<and> 0 \<le> h_hp (hero (update inp g))
    \<and> (0 < ifr h \<longrightarrow> hurt h = (False, h))
    \<and> (0 < ifr (hero g) \<longrightarrow> hero (snd (hit_hero s k g)) = hero g \<and> hero (glitch_hit gl g) = hero g)
    \<and> (ifr h \<le> 0 \<longrightarrow> fst (hurt h) \<and> h_hp (snd (hurt h)) = h_hp h - 1)"
  using run_inv [OF assms, of inps] update_inv [OF assms, of inp]
  by (simp add: hurt_def hit_hero_def glitch_hit_def Let_def)

theorem hero_health_never_negative_witness:
  "0 \<le> h_hp (hero (run [idle_input, idle_input] demo_game))
   \<and> hurt ((Hero CENTER)\<lparr>ifr := 1 / 2\<rparr>) = (False, (Hero CENTER)\<lparr>ifr := 1 / 2\<rparr>)
   \<and> hero (glitch_hit (CENTER, 1) (demo_game\<lparr>hero := (Hero CENTER)\<lparr>ifr := 1 / 2\<rparr>\<rparr>))
       = (Hero CENTER)\<lparr>ifr := 1 / 2\<rparr>
   \<and> h_hp (snd (hurt (Hero CENTER))) = 4"
  using hero_health_never_negative [of demo_game "[idle_input, idle_input]" idle_input
      "(Hero CENTER)\<lparr>ifr := 1 / 2\<rparr>"]
    hero_health_never_negative [of "demo_game\<lparr>hero := (Hero CENTER)\<lparr>ifr := 1 / 2\<rparr>\<rparr>" "[]" idle_input
      "(Hero CENTER)\<lparr>ifr := 1 / 2\<rparr>" _ _ "(CENTER, 1)"]
    hero_health_never_negative [of demo_game "[]" idle_input "Hero CENTER"]
  by (simp add: demo_game_def Hero_def HERO_HP_def)

end
